theory Spec2Isabelle
  imports Main "HOL-Library.Sublist" "HOL-Library.AList"
begin

section \<open>Strings of the audit pipeline\<close>

text \<open>
  The pipeline of \<^verbatim>\<open>frontend/lib/audit.ts\<close> works on JavaScript strings, which are
  sequences of UTF-16 code units. A string is modelled as the list of its code units,
  each a natural number (the code units are the numbers below 65536; a statement about
  every list covers every string). \<open>str\<close> turns a literal into that list.
\<close>

type_synonym jsstring = "nat list"

definition str :: "string \<Rightarrow> jsstring" where
  "str s = map of_char s"

text \<open>Line terminators of the regular-expression grammar: LF, CR, U+2028, U+2029.\<close>

definition isLineTerminator :: "nat \<Rightarrow> bool" where
  "isLineTerminator c = (c = 10 \<or> c = 13 \<or> c = 8232 \<or> c = 8233)"

text \<open>The class \<^verbatim>\<open>\s\<close>: white space and line terminators.\<close>

definition isWhiteSpace :: "nat \<Rightarrow> bool" where
  "isWhiteSpace c =
     (c = 9 \<or> c = 10 \<or> c = 11 \<or> c = 12 \<or> c = 13 \<or> c = 32 \<or> c = 160 \<or> c = 5760
      \<or> (8192 \<le> c \<and> c \<le> 8202) \<or> c = 8232 \<or> c = 8233 \<or> c = 8239 \<or> c = 8287
      \<or> c = 12288 \<or> c = 65279)"

text \<open>The class \<^verbatim>\<open>\w\<close>: ASCII letters, digits and the underscore.\<close>

definition isWordChar :: "nat \<Rightarrow> bool" where
  "isWordChar c =
     ((48 \<le> c \<and> c \<le> 57) \<or> (65 \<le> c \<and> c \<le> 90) \<or> c = 95 \<or> (97 \<le> c \<and> c \<le> 122))"

text \<open>\<^verbatim>\<open>String.prototype.includes\<close>: the needle occurs as a contiguous block.\<close>

fun stringIncludes :: "jsstring \<Rightarrow> jsstring \<Rightarrow> bool" where
  "stringIncludes [] needle = (needle = [])"
| "stringIncludes (c # cs) needle = (prefix needle (c # cs) \<or> stringIncludes cs needle)"

text \<open>
  \<^verbatim>\<open>String.prototype.toLowerCase\<close>, on the letters A to Z. JavaScript also maps
  capital letters outside ASCII, which the model leaves as they are; no theorem below
  depends on how a description is lowercased, and the examples are ASCII.
\<close>

definition toLowerCase :: "jsstring \<Rightarrow> jsstring" where
  "toLowerCase s = map (\<lambda>c. if 65 \<le> c \<and> c \<le> 90 then c + 32 else c) s"

text \<open>\<^verbatim>\<open>Array.prototype.join\<close>.\<close>

fun join :: "jsstring \<Rightarrow> jsstring list \<Rightarrow> jsstring" where
  "join sep [] = []"
| "join sep [x] = x"
| "join sep (x # y # ys) = x @ sep @ join sep (y # ys)"

text \<open>
  Decimal rendering of an integer, as a template literal prints a line number (a number
  of the analysis report; JavaScript prints an integer this way below \<open>10\<^sup>2\<^sup>1\<close>).
\<close>

function digits :: "nat \<Rightarrow> jsstring" where
  "digits n = (if n < 10 then [48 + n] else digits (n div 10) @ [48 + n mod 10])"
  by pat_completeness auto
termination
  by (relation "measure id") auto

declare digits.simps [simp del]

definition showNumber :: "int \<Rightarrow> jsstring" where
  "showNumber i = (if i < 0 then 45 # digits (nat (- i)) else digits (nat i))"

section \<open>Locations\<close>

text \<open>
  \<^verbatim>\<open>type Location = { file: string; line: number | null; element: string }\<close>;
  the field \<open>file\<close> is \<open>filename\<close> here. Line numbers are integers.
\<close>

record Location =
  filename :: jsstring
  line :: "int option"
  element :: jsstring

text \<open>The key of a location: \<^verbatim>\<open>`${l.file}:${l.line ?? ""}:${l.element}`\<close>.\<close>

definition locationKey :: "Location \<Rightarrow> jsstring" where
  "locationKey l =
     filename l @ str '':'' @ (case line l of None \<Rightarrow> [] | Some n \<Rightarrow> showNumber n) @ str '':'' @ element l"

text \<open>
  \<^verbatim>\<open>uniqueLocations\<close>: a filter whose callback consults and extends the set
  \<open>seen\<close> of keys; the set is threaded through the recursion.
\<close>

fun uniqueLocationsFrom :: "jsstring set \<Rightarrow> Location list \<Rightarrow> Location list" where
  "uniqueLocationsFrom seen [] = []"
| "uniqueLocationsFrom seen (l # ls) =
     (let k = locationKey l in
      if k \<in> seen then uniqueLocationsFrom seen ls
      else l # uniqueLocationsFrom (insert k seen) ls)"

definition uniqueLocations :: "Location list \<Rightarrow> Location list" where
  "uniqueLocations locs = uniqueLocationsFrom {} locs"

section \<open>Facts and knowledge-base enrichment\<close>

text \<open>
  The registry \<^verbatim>\<open>swc-registry/lib/swc-definition.json\<close> is data outside the
  repository: it is a parameter \<open>swcData\<close>, a finite map from identifiers to entries.
  \<open>References\<close> is \<open>None\<close> where \<^verbatim>\<open>Relationships\<close> is missing, is a string, or has
  no array of references.
\<close>

record RegistryEntry =
  entryMarkdown :: jsstring
  entryTitle :: jsstring
  entryDescription :: jsstring
  entryRemediation :: jsstring
  entryReferences :: "jsstring list option"

record EntryData =
  Id :: jsstring
  markdown :: jsstring
  Title :: jsstring
  Description :: jsstring
  Remediation :: jsstring
  References :: "jsstring list option"

type_synonym registry = "jsstring \<Rightarrow> RegistryEntry option"

definition getSWCEntry :: "registry \<Rightarrow> jsstring \<Rightarrow> EntryData option" where
  "getSWCEntry swcData ident =
     (case swcData ident of
        None \<Rightarrow> None
      | Some entry \<Rightarrow>
          Some \<lparr>Id = ident, markdown = entryMarkdown entry, Title = entryTitle entry,
                Description = entryDescription entry, Remediation = entryRemediation entry,
                References = entryReferences entry\<rparr>)"

definition getReferences :: "EntryData \<Rightarrow> jsstring list" where
  "getReferences entry = (case References entry of Some refs \<Rightarrow> refs | None \<Rightarrow> [])"

text \<open>
  \<^verbatim>\<open>enrichWithSWCByDescription\<close>: the phrase heuristics. The description is optional;
  \<^verbatim>\<open>!description\<close> holds for a missing and for an empty one. The results
  \<^verbatim>\<open>null\<close> and \<^verbatim>\<open>undefined\<close> are both \<open>None\<close>: the caller only tests truthiness.
\<close>

definition enrichWithSWCByDescription :: "registry \<Rightarrow> jsstring option \<Rightarrow> EntryData option" where
  "enrichWithSWCByDescription swcData description =
     (case description of
        None \<Rightarrow> None
      | Some d \<Rightarrow>
          if d = [] then None
          else let lower = toLowerCase d in
            if stringIncludes lower (str ''integer overflow'') \<or> stringIncludes lower (str ''underflow'')
            then getSWCEntry swcData (str ''SWC-101'')
            else if stringIncludes lower (str ''tx.origin'') then getSWCEntry swcData (str ''SWC-115'')
            else None)"

text \<open>\<^verbatim>\<open>enrichWithSWC\<close>: the switch on the check identifier, in the source's order.\<close>

definition enrichWithSWC :: "registry \<Rightarrow> jsstring \<Rightarrow> jsstring option \<Rightarrow> EntryData option" where
  "enrichWithSWC swcData check description =
     (if check = str ''controlled-delegatecall'' then getSWCEntry swcData (str ''SWC-112'')
      else if check = str ''reentrancy-no-eth'' \<or> check = str ''reentrancy-benign''
        then getSWCEntry swcData (str ''SWC-107'')
      else if check = str ''low-level-calls'' then getSWCEntry swcData (str ''SWC-104'')
      else if check = str ''missing-zero-check'' then None
      else enrichWithSWCByDescription swcData description)"

text \<open>The check identifiers that the switch of \<open>enrichWithSWC\<close> names.\<close>

definition explicitChecks :: "jsstring list" where
  "explicitChecks =
     [str ''controlled-delegatecall'', str ''reentrancy-no-eth'', str ''reentrancy-benign'',
      str ''low-level-calls'', str ''missing-zero-check'']"

record Facts =
  writesAfterCall :: bool
  mentionsDelegatecall :: bool
  mentionsLowLevelCall :: bool
  exactStylePhrase :: bool
  mentionsZeroCheck :: bool

definition deriveFacts :: "jsstring option \<Rightarrow> Facts" where
  "deriveFacts desc =
     (let d = toLowerCase (case desc of None \<Rightarrow> [] | Some t \<Rightarrow> t) in
      \<lparr>writesAfterCall = stringIncludes d (str ''state variables written after the call''),
       mentionsDelegatecall = stringIncludes d (str ''delegatecall''),
       mentionsLowLevelCall = (stringIncludes d (str '' call('') \<or> stringIncludes d (str ''.call('')),
       exactStylePhrase = stringIncludes d (str ''not in mixedcase''),
       mentionsZeroCheck =
         (stringIncludes d (str ''lacks a zero-check'') \<or> stringIncludes d (str ''zero-check''))\<rparr>)"

section \<open>Normalized issues\<close>

text \<open>
  \<^verbatim>\<open>SWCMeta\<close>, with its optional \<^verbatim>\<open>id\<close>; the fields are prefixed with \<open>swc\<close> where the
  name is taken.
\<close>

record SWCMeta =
  swcId :: "jsstring option"
  swcTitle :: jsstring
  remediation :: jsstring
  references :: "jsstring list"

record NormalizedIssue =
  check :: jsstring
  title :: jsstring
  impact :: jsstring
  confidence :: jsstring
  description :: jsstring
  locations :: "Location list"
  facts :: Facts
  swc :: "SWCMeta option"

definition friendlyTitle :: "jsstring \<Rightarrow> jsstring" where
  "friendlyTitle c =
     (if c = str ''controlled-delegatecall'' then str ''Controlled Delegatecall''
      else if c = str ''reentrancy-no-eth'' then str ''Reentrancy (no ETH)''
      else if c = str ''reentrancy-benign'' then str ''Reentrancy (benign)''
      else if c = str ''missing-zero-check'' then str ''Missing zero-check (address)''
      else if c = str ''low-level-calls'' then str ''Low-level calls''
      else if c = str ''naming-convention'' then str ''Naming convention''
      else c)"

text \<open>
  \<^verbatim>\<open>normalizeIssue\<close>: the argument object has an optional description, optional facts
  and an optional (or null) SWC block.
\<close>

record RawIssue =
  rawCheck :: jsstring
  rawImpact :: jsstring
  rawConfidence :: jsstring
  rawDescription :: "jsstring option"
  rawLocations :: "Location list"
  rawFacts :: "Facts option"
  rawSwc :: "SWCMeta option"

definition normalizeIssue :: "RawIssue \<Rightarrow> NormalizedIssue" where
  "normalizeIssue issue =
     \<lparr>check = rawCheck issue,
      title = friendlyTitle (rawCheck issue),
      impact = rawImpact issue,
      confidence = rawConfidence issue,
      description = (case rawDescription issue of None \<Rightarrow> [] | Some d \<Rightarrow> d),
      locations = rawLocations issue,
      facts = (case rawFacts issue of None \<Rightarrow> deriveFacts (rawDescription issue) | Some f \<Rightarrow> f),
      swc = rawSwc issue\<rparr>"

section \<open>Grouping\<close>

text \<open>
  \<^verbatim>\<open>it.locations.find((l) => l.element)?.element ?? ""\<close>: the element of the first
  location whose element is a non-empty string, and the empty string when there is none.
\<close>

definition primaryElement :: "Location list \<Rightarrow> jsstring" where
  "primaryElement locs =
     (case find (\<lambda>l. element l \<noteq> []) locs of None \<Rightarrow> [] | Some l \<Rightarrow> element l)"

text \<open>The key \<^verbatim>\<open>`${it.check}@@${elem}`\<close>.\<close>

definition groupKey :: "NormalizedIssue \<Rightarrow> jsstring" where
  "groupKey it = check it @ str ''@@'' @ primaryElement (locations it)"

text \<open>
  The loop of \<^verbatim>\<open>groupByCheckAndElement\<close>. The \<^verbatim>\<open>Map\<close> \<open>grouped\<close> iterates in
  insertion order: it is an association list, where \<open>AList.update\<close> replaces the value
  of a key that is present in place and appends a new key at the end. Assigning to
  \<^verbatim>\<open>existing.locations\<close> changes the object held by the map, which is a clone of the
  first item of its key.
\<close>

fun groupLoop ::
  "(jsstring \<times> NormalizedIssue) list \<Rightarrow> NormalizedIssue list \<Rightarrow> NormalizedIssue list
     \<Rightarrow> (jsstring \<times> NormalizedIssue) list \<times> NormalizedIssue list" where
  "groupLoop grouped passthrough [] = (grouped, passthrough)"
| "groupLoop grouped passthrough (it # items) =
     (if check it = str ''missing-zero-check'' then
        (let key = groupKey it in
         case map_of grouped key of
           Some existing \<Rightarrow>
             groupLoop
               (AList.update key
                  (existing\<lparr>locations := uniqueLocations (locations existing @ locations it)\<rparr>) grouped)
               passthrough items
         | None \<Rightarrow>
             groupLoop (AList.update key (it\<lparr>locations := uniqueLocations (locations it)\<rparr>) grouped)
               passthrough items)
      else groupLoop grouped (passthrough @ [it]) items)"

definition groupByCheckAndElement :: "NormalizedIssue list \<Rightarrow> NormalizedIssue list" where
  "groupByCheckAndElement items =
     (case groupLoop [] [] items of (grouped, passthrough) \<Rightarrow> passthrough @ map snd grouped)"

section \<open>The deterministic renderer\<close>

text \<open>The exceptions a run can raise after the analysis report has been parsed.\<close>

datatype exn = TypeError | FetchFailed | BodyNotJson

text \<open>
  \<^verbatim>\<open>formatLocations\<close>: one row per location whose key was not seen before. The line
  is printed when it is not null, the element when it is a non-empty string.
\<close>

definition locationRow :: "Location \<Rightarrow> jsstring" where
  "locationRow l =
     str ''  - '' @ filename l
       @ (case line l of None \<Rightarrow> [] | Some n \<Rightarrow> str '':'' @ showNumber n)
       @ (if element l \<noteq> [] then str '' (element: '' @ element l @ str '')'' else [])"

fun formatLocationsFrom :: "jsstring set \<Rightarrow> Location list \<Rightarrow> jsstring list" where
  "formatLocationsFrom seen [] = []"
| "formatLocationsFrom seen (l # ls) =
     (let key = locationKey l in
      if key \<in> seen then formatLocationsFrom seen ls
      else locationRow l # formatLocationsFrom (insert key seen) ls)"

definition formatLocations :: "Location list \<Rightarrow> jsstring list" where
  "formatLocations locs = formatLocationsFrom {} locs"

text \<open>
  The test \<^verbatim>\<open>/\w+\s*\(.*\)/.test(elem)\<close>. At a start position the greedy runs of
  word characters and of white space are maximal (a shorter run would have to be followed
  by a character of the same class), then comes an opening parenthesis, and a closing
  one follows with no line terminator in between.
\<close>

fun closesOnLine :: "jsstring \<Rightarrow> bool" where
  "closesOnLine [] = False"
| "closesOnLine (c # cs) = (c = 41 \<or> (\<not> isLineTerminator c \<and> closesOnLine cs))"

definition callShapeAt :: "jsstring \<Rightarrow> bool" where
  "callShapeAt s =
     (case s of
        [] \<Rightarrow> False
      | c # cs \<Rightarrow>
          isWordChar c \<and>
          (case dropWhile isWhiteSpace (dropWhile isWordChar cs) of
             [] \<Rightarrow> False
           | d # ds \<Rightarrow> d = 40 \<and> closesOnLine ds))"

fun testCallShape :: "jsstring \<Rightarrow> bool" where
  "testCallShape [] = False"
| "testCallShape (c # cs) = (callShapeAt (c # cs) \<or> testCallShape cs)"

text \<open>The risk and remediation sentences of \<^verbatim>\<open>renderOne\<close>, by check.\<close>

definition riskOf :: "NormalizedIssue \<Rightarrow> jsstring" where
  "riskOf it =
     (if check it = str ''controlled-delegatecall'' then
        str ''Uses `delegatecall` to an input-controlled target, executing code in the caller''
          @ [8217] @ str ''s context.''
      else if check it = str ''reentrancy-no-eth'' then
        str ''External call occurs before a state write, enabling reentrancy before effects are applied. A state variable is written after an external call.''
      else if check it = str ''reentrancy-benign'' then
        str ''External call followed by a state write (marked benign by Slither for this context). A state variable is written after an external call.''
      else if check it = str ''missing-zero-check'' then
        str ''Target address parameter lacks a `!= address(0)` validation.''
      else if check it = str ''low-level-calls'' then
        str ''Uses low-level calls (`call`/`delegatecall`) that bypass type safety and can fail silently.''
      else if check it = str ''naming-convention'' then
        str ''Variable is not in mixedCase.''
      else if description it \<noteq> [] then description it else str ''See description.'')"

definition remediationOf :: "NormalizedIssue \<Rightarrow> jsstring" where
  "remediationOf it =
     (if check it = str ''controlled-delegatecall'' then
        str ''Avoid `delegatecall` to untrusted targets; restrict to immutable/whitelisted addresses or replace with interface calls.''
      else if check it = str ''reentrancy-no-eth'' then
        str ''Apply Checks'' @ [8211] @ str ''Effects'' @ [8211]
          @ str ''Interactions and/or a reentrancy guard; validate/limit the callee.''
      else if check it = str ''reentrancy-benign'' then
        str ''Prefer CEI or a guard if the function can be externally triggered.''
      else if check it = str ''missing-zero-check'' then
        str ''Validate non-zero addresses and check `success` for low-level calls.''
      else if check it = str ''low-level-calls'' then
        str ''Prefer typed interface calls; if using low-level calls, check `success` and handle returned data.''
      else if check it = str ''naming-convention'' then
        str ''Rename variables to mixedCase (e.g., `sVariable`, `sOtherVar`).''
      else str ''Follow best practices for this category.'')"

definition isFunctionish :: "NormalizedIssue \<Rightarrow> jsstring \<Rightarrow> bool" where
  "isFunctionish it elem =
     (testCallShape elem \<or>
      check it \<in> set [str ''controlled-delegatecall'', str ''reentrancy-no-eth'',
                       str ''reentrancy-benign'', str ''low-level-calls''])"

text \<open>
  The header lines: the contract line, then the list of locations when
  \<^verbatim>\<open>formatLocations\<close> gives more than one row, and otherwise one line with the
  label, the element and the first line number that is not null (printed when truthy,
  that is, not zero).
\<close>

definition headerLines :: "NormalizedIssue \<Rightarrow> jsstring list" where
  "headerLines it =
     (let locs = locations it;
          elem = (if primaryElement locs = [] then str ''N/A'' else primaryElement locs);
          label = (if isFunctionish it elem then str ''Function'' else str ''Element'');
          firstLine = (case find (\<lambda>l. line l \<noteq> None) locs of None \<Rightarrow> None | Some l \<Rightarrow> line l);
          locList = formatLocations locs
      in (str ''- Contract: '' @ (case locs of [] \<Rightarrow> str ''(unknown file)'' | main # _ \<Rightarrow> filename main))
         # (if length locList > 1 then str ''- Locations:'' # locList
            else [str ''- '' @ label @ str '': `'' @ elem @ str ''`''
                    @ (case firstLine of
                         None \<Rightarrow> []
                       | Some n \<Rightarrow> if n = 0 then [] else str '' (line '' @ showNumber n @ str '')'')]))"

text \<open>The SWC block: its non-empty lines, joined.\<close>

definition swcLines :: "NormalizedIssue \<Rightarrow> jsstring" where
  "swcLines it =
     (case swc it of
        None \<Rightarrow> []
      | Some m \<Rightarrow>
          join [10]
            (filter (\<lambda>t. t \<noteq> [])
               [str ''- **SWC:** ''
                  @ (case swcId m of None \<Rightarrow> [] | Some i \<Rightarrow> if i = [] then [] else i @ str '': '')
                  @ swcTitle m,
                if remediation m \<noteq> [] then str ''- **SWC Remediation:** '' @ remediation m else [],
                if references m \<noteq> [] then
                  str ''- **References:**'' @ [10]
                    @ join [10] (map (\<lambda>r. str ''  - '' @ r) (references m))
                else []]))"

definition renderOne :: "NormalizedIssue \<Rightarrow> jsstring" where
  "renderOne it =
     join [10]
       ([str ''## '' @ friendlyTitle (check it)] @ headerLines it
        @ [str ''- Confidence: '' @ confidence it,
           str ''- Issue: '' @ riskOf it,
           str ''- Recommendation: '' @ remediationOf it,
           swcLines it,
           []])"

text \<open>
  \<^verbatim>\<open>byImpact\<close> is an object literal with four own keys. Reading a key that is not
  an own key goes to \<^verbatim>\<open>Object.prototype\<close>: for the names below the value read is a
  function (or the prototype itself), which is not nullish and has no \<^verbatim>\<open>push\<close>, so
  the call raises a \<^verbatim>\<open>TypeError\<close>; for every other name the value is undefined and a
  new bucket is created.
\<close>

definition objectPrototypeKeys :: "jsstring list" where
  "objectPrototypeKeys =
     [str ''constructor'', str ''__defineGetter__'', str ''__defineSetter__'',
      str ''hasOwnProperty'', str ''__lookupGetter__'', str ''__lookupSetter__'',
      str ''isPrototypeOf'', str ''propertyIsEnumerable'', str ''toString'', str ''valueOf'',
      str ''__proto__'', str ''toLocaleString'']"

definition impactOrder :: "jsstring list" where
  "impactOrder = [str ''High'', str ''Medium'', str ''Low'', str ''Informational'']"

definition byImpactInit :: "jsstring \<Rightarrow> NormalizedIssue list option" where
  "byImpactInit =
     [str ''High'' \<mapsto> [], str ''Medium'' \<mapsto> [], str ''Low'' \<mapsto> [], str ''Informational'' \<mapsto> []]"

fun byImpactLoop ::
  "(jsstring \<Rightarrow> NormalizedIssue list option) \<Rightarrow> NormalizedIssue list
     \<Rightarrow> exn + (jsstring \<Rightarrow> NormalizedIssue list option)" where
  "byImpactLoop byImpact [] = Inr byImpact"
| "byImpactLoop byImpact (it # items) =
     (case byImpact (impact it) of
        Some bucket \<Rightarrow> byImpactLoop (byImpact(impact it \<mapsto> bucket @ [it])) items
      | None \<Rightarrow>
          if impact it \<in> set objectPrototypeKeys then Inl TypeError
          else byImpactLoop (byImpact(impact it \<mapsto> [it])) items)"

text \<open>\<^verbatim>\<open>byImpact[sev] ?? []\<close>\<close>

definition bucketOf :: "(jsstring \<Rightarrow> NormalizedIssue list option) \<Rightarrow> jsstring \<Rightarrow> NormalizedIssue list" where
  "bucketOf byImpact sev = (case byImpact sev of None \<Rightarrow> [] | Some bucket \<Rightarrow> bucket)"

definition renderSection :: "(jsstring \<Rightarrow> NormalizedIssue list option) \<Rightarrow> jsstring \<Rightarrow> jsstring" where
  "renderSection byImpact sev =
     str ''# '' @ sev @ str '' Impact Findings'' @ [10, 10]
       @ join [10] (map renderOne (bucketOf byImpact sev))"

definition noVulnerabilities :: "jsstring \<Rightarrow> jsstring" where
  "noVulnerabilities address =
     [9989] @ str '' No vulnerabilities found by Slither for '' @ address @ str ''.''"

definition renderMarkdownDeterministic :: "jsstring \<Rightarrow> NormalizedIssue list \<Rightarrow> exn + jsstring" where
  "renderMarkdownDeterministic address items =
     (case byImpactLoop byImpactInit items of
        Inl e \<Rightarrow> Inl e
      | Inr byImpact \<Rightarrow>
          (let sections =
                 join [10]
                   (map (renderSection byImpact)
                      (filter (\<lambda>sev. length (bucketOf byImpact sev) \<noteq> 0) impactOrder))
           in Inr (if sections = [] then noVulnerabilities address else sections)))"

section \<open>Validation of a candidate report\<close>

text \<open>
  \<^verbatim>\<open>countsByImpact\<close>: the reduce that adds one at the key of each item. Only the four
  own keys are read afterwards. (At a name inherited from \<^verbatim>\<open>Object.prototype\<close> the
  sum is a string in JavaScript; it touches none of the four keys and raises nothing.)
\<close>

fun countsByImpactFrom :: "(jsstring \<Rightarrow> nat) \<Rightarrow> jsstring list \<Rightarrow> jsstring \<Rightarrow> nat" where
  "countsByImpactFrom acc [] = acc"
| "countsByImpactFrom acc (i # is) = countsByImpactFrom (acc(i := acc i + 1)) is"

definition countsByImpact :: "jsstring list \<Rightarrow> jsstring \<Rightarrow> nat" where
  "countsByImpact impacts = countsByImpactFrom (\<lambda>_. 0) impacts"

text \<open>
  The regular expression \<^verbatim>\<open>^# ${sev} Impact Findings\s*$\<close> with the flag \<^verbatim>\<open>m\<close>,
  tried at one position. \<open>trailingSpace\<close> is the greedy \<^verbatim>\<open>\s*\<close> followed by \<^verbatim>\<open>$\<close>:
  the longest run of white space after which the input ends or a line terminator
  follows. It returns the rest of the input after the match, and whether the rest
  begins a line (the flag says whether the position reached so far does).
\<close>

fun trailingSpace :: "bool \<Rightarrow> jsstring \<Rightarrow> (jsstring \<times> bool) option" where
  "trailingSpace b [] = Some ([], b)"
| "trailingSpace b (c # cs) =
     (case (if isWhiteSpace c then trailingSpace (isLineTerminator c) cs else None) of
        Some r \<Rightarrow> Some r
      | None \<Rightarrow> if isLineTerminator c then Some (c # cs, b) else None)"

definition headingText :: "jsstring \<Rightarrow> jsstring" where
  "headingText sev = str ''# '' @ sev @ str '' Impact Findings''"

definition matchHeading :: "jsstring \<Rightarrow> jsstring \<Rightarrow> (jsstring \<times> bool) option" where
  "matchHeading sev s =
     (if prefix (headingText sev) s then trailingSpace False (drop (length (headingText sev)) s)
      else None)"

text \<open>
  \<^verbatim>\<open>md.split(re)[1] || ""\<close>: the text between the end of the first match and the
  start of the second one (or the end of the input), and the empty string when there
  is no match. The flag of both scans says whether the position begins a line, which is
  where \<^verbatim>\<open>^\<close> holds.
\<close>

fun afterFirstHeading :: "jsstring \<Rightarrow> bool \<Rightarrow> jsstring \<Rightarrow> (jsstring \<times> bool) option" where
  "afterFirstHeading sev b [] = None"
| "afterFirstHeading sev b (c # cs) =
     (case (if b then matchHeading sev (c # cs) else None) of
        Some r \<Rightarrow> Some r
      | None \<Rightarrow> afterFirstHeading sev (isLineTerminator c) cs)"

fun beforeNextHeading :: "jsstring \<Rightarrow> bool \<Rightarrow> jsstring \<Rightarrow> jsstring" where
  "beforeNextHeading sev b [] = []"
| "beforeNextHeading sev b (c # cs) =
     (if b \<and> matchHeading sev (c # cs) \<noteq> None then []
      else c # beforeNextHeading sev (isLineTerminator c) cs)"

definition sectionOf :: "jsstring \<Rightarrow> jsstring \<Rightarrow> jsstring" where
  "sectionOf sev md =
     (case afterFirstHeading sev True md of
        None \<Rightarrow> []
      | Some (rest, b) \<Rightarrow> beforeNextHeading sev b rest)"

text \<open>
  \<^verbatim>\<open>(section.match(/^## /gm) || []).length\<close>: the number of positions that begin a
  line and where the pattern starts (two such matches never overlap).
\<close>

fun countHeadings :: "jsstring \<Rightarrow> bool \<Rightarrow> jsstring \<Rightarrow> nat" where
  "countHeadings pat b [] = 0"
| "countHeadings pat b (c # cs) =
     (if b \<and> prefix pat (c # cs) then 1 else 0) + countHeadings pat (isLineTerminator c) cs"

definition parseCountsFromMarkdown :: "jsstring \<Rightarrow> jsstring \<Rightarrow> nat" where
  "parseCountsFromMarkdown md sev =
     (let section = sectionOf sev md;
          count2 = countHeadings (str ''## '') True section;
          count3 = countHeadings (str ''### '') True section
      in max count2 count3)"

text \<open>
  \<^verbatim>\<open>/\]\(#.+?\)/.test(md)\<close>: the three characters, one character that is not a line
  terminator, and a closing parenthesis later on the same line.
\<close>

definition anchorAt :: "jsstring \<Rightarrow> bool" where
  "anchorAt s =
     (prefix (str ''](#'') s \<and>
      (case drop 3 s of [] \<Rightarrow> False | c # cs \<Rightarrow> \<not> isLineTerminator c \<and> closesOnLine cs))"

fun containsForbiddenAnchors :: "jsstring \<Rightarrow> bool" where
  "containsForbiddenAnchors [] = False"
| "containsForbiddenAnchors (c # cs) = (anchorAt (c # cs) \<or> containsForbiddenAnchors cs)"

definition writesAfterCallSentence :: jsstring where
  "writesAfterCallSentence = str ''A state variable is written after an external call.''"

definition missingWritesAfterCallSentence :: "jsstring \<Rightarrow> NormalizedIssue list \<Rightarrow> bool" where
  "missingWritesAfterCallSentence md items =
     (let needs = list_ex (\<lambda>i. writesAfterCall (facts i)) items in
      if \<not> needs then False else \<not> stringIncludes md writesAfterCallSentence)"

definition validateOrFallback :: "jsstring \<Rightarrow> NormalizedIssue list \<Rightarrow> bool" where
  "validateOrFallback md enrichedIssues =
     (let expected = countsByImpact (map impact enrichedIssues);
          seen = parseCountsFromMarkdown md;
          countsOk = list_all (\<lambda>sev. expected sev = seen sev) impactOrder;
          anchorsOk = (\<not> containsForbiddenAnchors md);
          writesOk = (\<not> missingWritesAfterCallSentence md enrichedIssues)
      in countsOk \<and> anchorsOk \<and> writesOk)"

section \<open>The orchestrator\<close>

text \<open>
  \<^verbatim>\<open>runAudit\<close> from the parsed analysis report on: fetching the sources, running the
  analysis tool and parsing its output come before and are not modelled, nor is the
  writing of the report to a file. The switch \<^verbatim>\<open>AUDIT_RENDERER\<close> of the environment is
  the argument \<open>deterministic\<close>. A detector record and its elements have the optional
  fields of the source types; of \<^verbatim>\<open>lines\<close> only the first entry is read.
\<close>

record SourceMapping =
  filename_relative :: "jsstring option"
  lines :: "int list option"

record DetectorElement =
  name :: "jsstring option"
  source_mapping :: "SourceMapping option"

record DetectorResult =
  detCheck :: jsstring
  detImpact :: jsstring
  detConfidence :: jsstring
  detDescription :: jsstring
  elements :: "DetectorElement list option"

definition locationOfElement :: "DetectorElement \<Rightarrow> Location" where
  "locationOfElement e =
     \<lparr>filename =
        (case source_mapping e of
           None \<Rightarrow> []
         | Some sm \<Rightarrow> (case filename_relative sm of None \<Rightarrow> [] | Some f \<Rightarrow> f)),
      line =
        (case source_mapping e of
           None \<Rightarrow> None
         | Some sm \<Rightarrow> (case lines sm of None \<Rightarrow> None | Some [] \<Rightarrow> None | Some (n # _) \<Rightarrow> Some n)),
      element = (case name e of None \<Rightarrow> [] | Some n \<Rightarrow> n)\<rparr>"

definition enrichIssue :: "registry \<Rightarrow> DetectorResult \<Rightarrow> NormalizedIssue" where
  "enrichIssue swcData d =
     normalizeIssue
       \<lparr>rawCheck = detCheck d,
        rawImpact = detImpact d,
        rawConfidence = detConfidence d,
        rawDescription = Some (detDescription d),
        rawLocations = (case elements d of None \<Rightarrow> [] | Some es \<Rightarrow> map locationOfElement es),
        rawFacts = Some (deriveFacts (Some (detDescription d))),
        rawSwc =
          (case enrichWithSWC swcData (detCheck d) (Some (detDescription d)) of
             None \<Rightarrow> None
           | Some swcEntry \<Rightarrow>
               Some \<lparr>swcId = Some (Id swcEntry), swcTitle = Title swcEntry,
                     remediation = Remediation swcEntry, references = getReferences swcEntry\<rparr>)\<rparr>"

text \<open>
  The call of the candidate generator: \<^verbatim>\<open>await fetch(...)\<close> either rejects or gives
  a reply whose body \<^verbatim>\<open>await aiRes.json()\<close> either rejects or parses to an object with
  an optional \<^verbatim>\<open>response\<close>. Neither await is inside a \<^verbatim>\<open>try\<close>.
\<close>

record OllamaResponse =
  response :: "jsstring option"
  errorText :: "jsstring option"

datatype generatorOutcome = FetchRejected | JsonRejected | Replied OllamaResponse

definition noVulnerabilitiesForContract :: "jsstring \<Rightarrow> jsstring" where
  "noVulnerabilitiesForContract address =
     [9989] @ str '' No vulnerabilities found by Slither for this contract ('' @ address @ str '').''"

definition runAudit ::
  "registry \<Rightarrow> bool \<Rightarrow> generatorOutcome \<Rightarrow> jsstring \<Rightarrow> DetectorResult list \<Rightarrow> exn + jsstring" where
  "runAudit swcData deterministic outcome address detectors =
     (if detectors = [] then Inr (noVulnerabilitiesForContract address)
      else
        let enrichedIssues = groupByCheckAndElement (map (enrichIssue swcData) detectors) in
        if deterministic then renderMarkdownDeterministic address enrichedIssues
        else
          (case outcome of
             FetchRejected \<Rightarrow> Inl FetchFailed
           | JsonRejected \<Rightarrow> Inl BodyNotJson
           | Replied data \<Rightarrow>
               (let md = (case response data of None \<Rightarrow> [] | Some t \<Rightarrow> t) in
                if \<not> validateOrFallback md enrichedIssues
                then renderMarkdownDeterministic address enrichedIssues
                else Inr md)))"

section \<open>Notions of the specification\<close>

text \<open>
  The definitions of this section are not translations of the source: they state, in the
  terms of the specification, what the claims compare the code with.
\<close>

text \<open>
  The section of a severity in a Markdown document, as the specification reads it: the
  text after the severity's top-level heading, up to the next top-level heading (a line
  that begins with \<^verbatim>\<open># \<close>) or the end of the document. The heading and the starts of
  lines are recognised as the validator does.
\<close>

fun beforeNextTopHeading :: "bool \<Rightarrow> jsstring \<Rightarrow> jsstring" where
  "beforeNextTopHeading b [] = []"
| "beforeNextTopHeading b (c # cs) =
     (if b \<and> prefix (str ''# '') (c # cs) then []
      else c # beforeNextTopHeading (isLineTerminator c) cs)"

definition specSectionOf :: "jsstring \<Rightarrow> jsstring \<Rightarrow> jsstring" where
  "specSectionOf sev md =
     (case afterFirstHeading sev True md of
        None \<Rightarrow> []
      | Some (rest, b) \<Rightarrow> beforeNextTopHeading b rest)"

text \<open>
  The number of sub-headings under a severity's section, at the two depths the validator
  recognises.
\<close>

definition specSubHeadingCount :: "jsstring \<Rightarrow> jsstring \<Rightarrow> nat" where
  "specSubHeadingCount sev md =
     (let section = specSectionOf sev md
      in max (countHeadings (str ''## '') True section) (countHeadings (str ''### '') True section))"

text \<open>The document has a top-level heading for the severity.\<close>

definition hasTopHeading :: "jsstring \<Rightarrow> jsstring \<Rightarrow> bool" where
  "hasTopHeading sev md = (afterFirstHeading sev True md \<noteq> None)"

text \<open>The number of findings of a severity.\<close>

definition findingsOf :: "jsstring \<Rightarrow> NormalizedIssue list \<Rightarrow> nat" where
  "findingsOf sev items = length (filter (\<lambda>i. impact i = sev) items)"

text \<open>
  \<open>quiet b s\<close>: no \<^verbatim>\<open>#\<close> of the text \<open>s\<close> stands at the start of a line, where \<open>b\<close>
  says whether \<open>s\<close> itself starts a line. A text put into the report after other text
  of the same line is free of headings when no line terminator in it is followed by
  \<^verbatim>\<open>#\<close>.
\<close>

fun quiet :: "bool \<Rightarrow> jsstring \<Rightarrow> bool" where
  "quiet b [] = True"
| "quiet b (c # cs) = ((if b then c \<noteq> 35 else True) \<and> quiet (isLineTerminator c) cs)"

definition headingFree :: "jsstring \<Rightarrow> bool" where
  "headingFree s = quiet False s"

definition swcHeadingFree :: "SWCMeta \<Rightarrow> bool" where
  "swcHeadingFree m =
     ((case swcId m of None \<Rightarrow> True | Some i \<Rightarrow> headingFree i) \<and> headingFree (swcTitle m) \<and>
      headingFree (remediation m) \<and> list_all headingFree (references m))"

definition issueHeadingFree :: "NormalizedIssue \<Rightarrow> bool" where
  "issueHeadingFree it =
     (headingFree (check it) \<and> headingFree (confidence it) \<and> headingFree (description it) \<and>
      list_all (\<lambda>l. headingFree (filename l) \<and> headingFree (element l)) (locations it) \<and>
      (case swc it of None \<Rightarrow> True | Some m \<Rightarrow> swcHeadingFree m))"

text \<open>
  The first-seen instances of the grouping keys: the items whose key no earlier item of
  the list has.
\<close>

fun firstSeen :: "jsstring set \<Rightarrow> NormalizedIssue list \<Rightarrow> NormalizedIssue list" where
  "firstSeen seen [] = []"
| "firstSeen seen (it # items) =
     (if groupKey it \<in> seen then firstSeen seen items
      else it # firstSeen (insert (groupKey it) seen) items)"

text \<open>A finding without its locations: all the fields that grouping takes from the first instance.\<close>

definition withoutLocations :: "NormalizedIssue \<Rightarrow> NormalizedIssue" where
  "withoutLocations it = it\<lparr>locations := []\<rparr>"

text \<open>
  Deduplication as the specification states it: a location is kept exactly when no equal
  location was met before.
\<close>

fun firstOccurrences :: "Location set \<Rightarrow> Location list \<Rightarrow> Location list" where
  "firstOccurrences seen [] = []"
| "firstOccurrences seen (l # ls) =
     (if l \<in> seen then firstOccurrences seen ls else l # firstOccurrences (insert l seen) ls)"

text \<open>All the locations of a list of findings.\<close>

definition allLocations :: "NormalizedIssue list \<Rightarrow> Location set" where
  "allLocations items = (\<Union>it \<in> set items. set (locations it))"

text \<open>
  What holds of an entry of the map \<open>grouped\<close> when the keys of the locations in \<open>A\<close> are
  pairwise different: the entry is a groupable finding stored under its own key, and its
  locations are deduplicated locations of \<open>A\<close>.
\<close>

definition groupedEntry :: "Location set \<Rightarrow> jsstring \<times> NormalizedIssue \<Rightarrow> bool" where
  "groupedEntry A e =
     (check (snd e) = str ''missing-zero-check'' \<and> groupKey (snd e) = fst e \<and>
      distinct (map locationKey (locations (snd e))) \<and> set (locations (snd e)) \<subseteq> A)"

text \<open>
  The primary symbol as the element of the first location whose element name is not
  empty: the locations with an empty name are skipped.
\<close>

definition firstNamedElement :: "Location list \<Rightarrow> jsstring" where
  "firstNamedElement locs =
     (case dropWhile (\<lambda>l. element l = []) locs of [] \<Rightarrow> [] | l # _ \<Rightarrow> element l)"

section \<open>Example inputs\<close>

text \<open>A registry with the single entry SWC-101.\<close>

definition exampleRegistry :: registry where
  "exampleRegistry ident =
     (if ident = str ''SWC-101'' then
        Some \<lparr>entryMarkdown = [], entryTitle = str ''Integer Overflow and Underflow'',
              entryDescription = [], entryRemediation = str ''Use checked arithmetic.'',
              entryReferences = None\<rparr>
      else None)"

text \<open>Two normalized issues, one whose description sets the fact \<open>writesAfterCall\<close>.\<close>

definition exampleReentrancy :: NormalizedIssue where
  "exampleReentrancy =
     normalizeIssue
       \<lparr>rawCheck = str ''reentrancy-no-eth'', rawImpact = str ''Medium'',
        rawConfidence = str ''Medium'',
        rawDescription = Some (str ''Reentrancy in f(): State variables written after the call(s)''),
        rawLocations = [\<lparr>filename = str ''src/V.sol'', line = Some 18, element = str ''f''\<rparr>],
        rawFacts = None, rawSwc = None\<rparr>"

definition exampleNaming :: NormalizedIssue where
  "exampleNaming =
     normalizeIssue
       \<lparr>rawCheck = str ''naming-convention'', rawImpact = str ''Informational'',
        rawConfidence = str ''High'',
        rawDescription = Some (str ''Variable s_x is not in mixedCase''),
        rawLocations = [\<lparr>filename = str ''src/V.sol'', line = Some 5, element = str ''s_x''\<rparr>],
        rawFacts = None, rawSwc = None\<rparr>"

text \<open>An issue without facts or knowledge entry of its own, normalized.\<close>

definition plainIssue ::
  "jsstring \<Rightarrow> jsstring \<Rightarrow> jsstring option \<Rightarrow> Location list \<Rightarrow> NormalizedIssue" where
  "plainIssue c i d locs =
     normalizeIssue
       \<lparr>rawCheck = c, rawImpact = i, rawConfidence = str ''Medium'', rawDescription = d,
        rawLocations = locs, rawFacts = None, rawSwc = None\<rparr>"

text \<open>
  A candidate report with one sub-heading under each of two severities, and a finding
  set with two findings of the first severity and one of the second.
\<close>

definition candidateTwoSections :: jsstring where
  "candidateTwoSections =
     str ''# High Impact Findings'' @ [10, 10] @ str ''## A'' @ [10, 10]
       @ str ''# Medium Impact Findings'' @ [10, 10] @ str ''## B'' @ [10]"

definition findingsTwoHighOneMedium :: "NormalizedIssue list" where
  "findingsTwoHighOneMedium =
     [plainIssue (str ''a'') (str ''High'') None [], plainIssue (str ''b'') (str ''High'') None [],
      plainIssue (str ''c'') (str ''Medium'') None []]"

text \<open>Two locations that differ in file and element and have the same key \<^verbatim>\<open>a:::x\<close>.\<close>

definition collidingLocations :: "Location list" where
  "collidingLocations =
     [\<lparr>filename = str ''a:'', line = None, element = str ''x''\<rparr>,
      \<lparr>filename = str ''a'', line = None, element = str '':x''\<rparr>]"

text \<open>
  Two \<^verbatim>\<open>missing-zero-check\<close> findings; the two locations of the first have the same
  key \<^verbatim>\<open>a:::\<close>.
\<close>

definition groupedTwice :: "NormalizedIssue list" where
  "groupedTwice =
     [plainIssue (str ''missing-zero-check'') (str ''Low'') None
        [\<lparr>filename = str ''a:'', line = None, element = []\<rparr>,
         \<lparr>filename = str ''a'', line = None, element = str '':''\<rparr>],
      plainIssue (str ''missing-zero-check'') (str ''Low'') None
        [\<lparr>filename = str ''b'', line = None, element = []\<rparr>]]"

text \<open>A finding whose first location has no element name.\<close>

definition unnamedFirstLocation :: NormalizedIssue where
  "unnamedFirstLocation =
     plainIssue (str ''missing-zero-check'') (str ''Low'') None
       [\<lparr>filename = str ''src/V.sol'', line = Some 3, element = []\<rparr>,
        \<lparr>filename = str ''src/V.sol'', line = Some 4, element = str ''to''\<rparr>]"

definition namedLater :: NormalizedIssue where
  "namedLater =
     plainIssue (str ''missing-zero-check'') (str ''Low'') None
       [\<lparr>filename = str ''src/V.sol'', line = Some 9, element = str ''to''\<rparr>]"

text \<open>A groupable finding followed by one that is not, of the same severity.\<close>

definition zeroCheckFirst :: "NormalizedIssue list" where
  "zeroCheckFirst =
     [plainIssue (str ''missing-zero-check'') (str ''Low'') None
        [\<lparr>filename = str ''src/V.sol'', line = Some 3, element = str ''to''\<rparr>],
      plainIssue (str ''reentrancy-benign'') (str ''Low'') None
        [\<lparr>filename = str ''src/V.sol'', line = Some 8, element = str ''f''\<rparr>]]"

text \<open>A finding of an unlisted check whose description has a second line \<^verbatim>\<open>## second line\<close>.\<close>

definition headingInDescription :: NormalizedIssue where
  "headingInDescription =
     plainIssue (str ''custom-check'') (str ''High'')
       (Some (str ''first line'' @ [10] @ str ''## second line'')) []"

text \<open>A detector record as the analysis tool reports it.\<close>

definition exampleDetector :: DetectorResult where
  "exampleDetector =
     \<lparr>detCheck = str ''low-level-calls'', detImpact = str ''Informational'',
      detConfidence = str ''High'', detDescription = str ''Low level call in V.f()'',
      elements = Some [\<lparr>name = Some (str ''f''),
         source_mapping = Some \<lparr>filename_relative = Some (str ''src/V.sol''), lines = Some [18, 19]\<rparr>\<rparr>]\<rparr>"

text \<open>
  Candidate reports for a single finding: for the reentrancy example with and without the
  fixed sentence, and for the naming example.
\<close>

definition candidateWithSentence :: jsstring where
  "candidateWithSentence =
     str ''# Medium Impact Findings'' @ [10, 10] @ str ''## Reentrancy (no ETH)'' @ [10]
       @ str ''- Issue: A state variable is written after an external call.''"

definition candidateWithoutSentence :: jsstring where
  "candidateWithoutSentence =
     str ''# Medium Impact Findings'' @ [10, 10] @ str ''## Reentrancy (no ETH)'' @ [10]
       @ str ''- Issue: reentrancy.''"

definition candidateNaming :: jsstring where
  "candidateNaming =
     str ''# Informational Impact Findings'' @ [10, 10] @ str ''## Naming convention'' @ [10]"

section \<open>Properties\<close>

subsection \<open>Evaluation of the examples\<close>

text \<open>
  The definitions that the simplifier unfolds to evaluate the examples of this theory.
\<close>

lemmas example_eval = str_def plainIssue_def normalizeIssue_def deriveFacts_def toLowerCase_def
  friendlyTitle_def

lemmas group_eval = groupByCheckAndElement_def groupKey_def primaryElement_def uniqueLocations_def
  locationKey_def showNumber_def digits.simps

lemmas render_eval = renderMarkdownDeterministic_def byImpactInit_def objectPrototypeKeys_def
  bucketOf_def renderSection_def renderOne_def headerLines_def swcLines_def riskOf_def
  remediationOf_def isFunctionish_def formatLocations_def locationRow_def callShapeAt_def
  isWordChar_def noVulnerabilities_def impactOrder_def isLineTerminator_def isWhiteSpace_def

lemmas validate_eval = validateOrFallback_def countsByImpact_def parseCountsFromMarkdown_def
  sectionOf_def matchHeading_def headingText_def missingWritesAfterCallSentence_def anchorAt_def
  writesAfterCallSentence_def specSubHeadingCount_def specSectionOf_def findingsOf_def
  hasTopHeading_def

subsection \<open>Strings\<close>

text \<open>
  \<open>stringIncludes\<close> is the contiguous-sublist relation of the library.
\<close>

lemma stringIncludes_sublist: "stringIncludes hay needle = sublist needle hay"
  by (induction hay) (simp_all add: sublist_Cons_right)

text \<open>The decimal rendering consists of digits.\<close>

lemma digits_chars: "c \<in> set (digits n) \<Longrightarrow> 48 \<le> c \<and> c \<le> 57"
proof (induction n rule: digits.induct)
  case (1 n)
  show ?case
  proof (cases "n < 10")
    case True
    with "1.prems" show ?thesis by (simp add: digits.simps [of n])
  next
    case False
    with "1.prems" "1.IH" show ?thesis
      by (auto simp add: digits.simps [of n])
  qed
qed

subsection \<open>The knowledge enricher\<close>

text \<open>
  Claim C9. For every registry and every description, the enricher returns nothing for
  the check \<^verbatim>\<open>missing-zero-check\<close>; for a check named in the switch the result does
  not depend on the description (the phrase heuristics are not consulted); and for any
  other check the result is that of the phrase heuristics.
\<close>

theorem enrichWithSWC_explicit_table:
  "enrichWithSWC swcData (str ''missing-zero-check'') d = None \<and>
   (c \<in> set explicitChecks \<longrightarrow> enrichWithSWC swcData c d = enrichWithSWC swcData c d') \<and>
   (c \<notin> set explicitChecks \<longrightarrow> enrichWithSWC swcData c d = enrichWithSWCByDescription swcData d)"
  by (auto simp add: enrichWithSWC_def explicitChecks_def str_def)

text \<open>
  The description \<^verbatim>\<open>Integer overflow in f()\<close> triggers the overflow heuristic for an
  unknown check, and is ignored for \<^verbatim>\<open>missing-zero-check\<close> and \<^verbatim>\<open>low-level-calls\<close>.
\<close>

theorem enrichWithSWC_explicit_table_witness:
  "enrichWithSWC exampleRegistry (str ''missing-zero-check'') (Some (str ''Integer overflow in f()'')) = None \<and>
   str ''low-level-calls'' \<in> set explicitChecks \<and>
   enrichWithSWC exampleRegistry (str ''low-level-calls'') (Some (str ''Integer overflow in f()''))
     = enrichWithSWC exampleRegistry (str ''low-level-calls'') None \<and>
   str ''divide-before-multiply'' \<notin> set explicitChecks \<and>
   enrichWithSWC exampleRegistry (str ''divide-before-multiply'') (Some (str ''Integer overflow in f()''))
     = enrichWithSWCByDescription exampleRegistry (Some (str ''Integer overflow in f()'')) \<and>
   enrichWithSWCByDescription exampleRegistry (Some (str ''Integer overflow in f()'')) \<noteq> None"
proof -
  have a: "str ''low-level-calls'' \<in> set explicitChecks"
    by (simp add: explicitChecks_def)
  have b: "str ''divide-before-multiply'' \<notin> set explicitChecks"
    by (simp add: explicitChecks_def str_def)
  have c: "enrichWithSWCByDescription exampleRegistry (Some (str ''Integer overflow in f()'')) \<noteq> None"
    by (simp add: enrichWithSWCByDescription_def toLowerCase_def str_def getSWCEntry_def
        exampleRegistry_def)
  from a b c
    enrichWithSWC_explicit_table [of exampleRegistry "Some (str ''Integer overflow in f()'')"
      "str ''low-level-calls''" None]
    enrichWithSWC_explicit_table [of exampleRegistry "Some (str ''Integer overflow in f()'')"
      "str ''divide-before-multiply''" None]
  show ?thesis by blast
qed

subsection \<open>The mandatory sentence\<close>

text \<open>The count of \<open>countsByImpact\<close> at a severity is the number of findings of the severity.\<close>

lemma countsByImpactFrom_count:
  "countsByImpactFrom acc impacts sev = acc sev + length (filter (\<lambda>i. i = sev) impacts)"
  by (induction impacts arbitrary: acc) auto

lemma countsByImpact_findingsOf: "countsByImpact (map impact items) sev = findingsOf sev items"
  by (simp add: countsByImpact_def countsByImpactFrom_count findingsOf_def filter_map comp_def)

lemma exampleReentrancy_fact: "writesAfterCall (facts exampleReentrancy)"
  by (simp add: exampleReentrancy_def normalizeIssue_def deriveFacts_def toLowerCase_def str_def)

lemma exampleNaming_fact: "\<not> writesAfterCall (facts exampleNaming)"
  by (simp add: exampleNaming_def normalizeIssue_def deriveFacts_def toLowerCase_def str_def)

lemmas counts_eval = parseCountsFromMarkdown_def sectionOf_def matchHeading_def headingText_def
  findingsOf_def impactOrder_def isLineTerminator_def isWhiteSpace_def str_def

text \<open>
  Claim C7. The validator accepts a candidate exactly when the counts agree for the four
  severities, the candidate has no anchor link and, if some finding has the fact
  \<open>writesAfterCall\<close>, the candidate contains the fixed sentence. So, when some finding
  has the fact, a candidate without the sentence is rejected, and for a candidate with
  the sentence the check has no part in the verdict; when no finding has the fact, the
  check has no part in the verdict of any candidate.
\<close>

theorem validator_mandatory_sentence:
  "validateOrFallback md items =
     (list_all (\<lambda>sev. parseCountsFromMarkdown md sev = findingsOf sev items) impactOrder \<and>
      \<not> containsForbiddenAnchors md \<and>
      (list_ex (\<lambda>i. writesAfterCall (facts i)) items \<longrightarrow> stringIncludes md writesAfterCallSentence)) \<and>
   missingWritesAfterCallSentence md items =
     (list_ex (\<lambda>i. writesAfterCall (facts i)) items \<and> \<not> stringIncludes md writesAfterCallSentence)"
  by (auto simp add: validateOrFallback_def missingWritesAfterCallSentence_def
      countsByImpact_findingsOf list_all_iff)

text \<open>
  Three candidates whose counts agree and that have no anchor link: for the reentrancy
  example, which has the fact, the one with the sentence is accepted and the one without
  it is rejected; for the naming example, which has not, the candidate is accepted
  without the sentence.
\<close>

theorem validator_mandatory_sentence_witness:
  "list_ex (\<lambda>i. writesAfterCall (facts i)) [exampleReentrancy] \<and>
   list_all (\<lambda>sev. parseCountsFromMarkdown candidateWithSentence sev
                     = findingsOf sev [exampleReentrancy]) impactOrder \<and>
   \<not> containsForbiddenAnchors candidateWithSentence \<and>
   stringIncludes candidateWithSentence writesAfterCallSentence \<and>
   validateOrFallback candidateWithSentence [exampleReentrancy] \<and>
   list_all (\<lambda>sev. parseCountsFromMarkdown candidateWithoutSentence sev
                     = findingsOf sev [exampleReentrancy]) impactOrder \<and>
   \<not> containsForbiddenAnchors candidateWithoutSentence \<and>
   \<not> stringIncludes candidateWithoutSentence writesAfterCallSentence \<and>
   \<not> validateOrFallback candidateWithoutSentence [exampleReentrancy] \<and>
   \<not> list_ex (\<lambda>i. writesAfterCall (facts i)) [exampleNaming] \<and>
   list_all (\<lambda>sev. parseCountsFromMarkdown candidateNaming sev
                     = findingsOf sev [exampleNaming]) impactOrder \<and>
   \<not> containsForbiddenAnchors candidateNaming \<and>
   \<not> stringIncludes candidateNaming writesAfterCallSentence \<and>
   validateOrFallback candidateNaming [exampleNaming]"
proof -
  have f: "list_ex (\<lambda>i. writesAfterCall (facts i)) [exampleReentrancy]"
    "\<not> list_ex (\<lambda>i. writesAfterCall (facts i)) [exampleNaming]"
    by (simp_all add: exampleReentrancy_fact exampleNaming_fact)
  have i: "impact exampleReentrancy = str ''Medium''" "impact exampleNaming = str ''Informational''"
    by (simp_all add: exampleReentrancy_def exampleNaming_def normalizeIssue_def)
  have c: "list_all (\<lambda>sev. parseCountsFromMarkdown candidateWithSentence sev
                     = findingsOf sev [exampleReentrancy]) impactOrder"
    "list_all (\<lambda>sev. parseCountsFromMarkdown candidateWithoutSentence sev
                     = findingsOf sev [exampleReentrancy]) impactOrder"
    "list_all (\<lambda>sev. parseCountsFromMarkdown candidateNaming sev
                     = findingsOf sev [exampleNaming]) impactOrder"
    by (simp_all add: candidateWithSentence_def candidateWithoutSentence_def candidateNaming_def
        i counts_eval)
  have a: "\<not> containsForbiddenAnchors candidateWithSentence"
    "\<not> containsForbiddenAnchors candidateWithoutSentence"
    "\<not> containsForbiddenAnchors candidateNaming"
    by (simp_all add: candidateWithSentence_def candidateWithoutSentence_def candidateNaming_def
        anchorAt_def str_def)
  have s: "stringIncludes candidateWithSentence writesAfterCallSentence"
    "\<not> stringIncludes candidateWithoutSentence writesAfterCallSentence"
    "\<not> stringIncludes candidateNaming writesAfterCallSentence"
    by (simp_all add: candidateWithSentence_def candidateWithoutSentence_def candidateNaming_def
        writesAfterCallSentence_def str_def)
  from f c a s
    validator_mandatory_sentence [of candidateWithSentence "[exampleReentrancy]"]
    validator_mandatory_sentence [of candidateWithoutSentence "[exampleReentrancy]"]
    validator_mandatory_sentence [of candidateNaming "[exampleNaming]"]
  show ?thesis by blast
qed

subsection \<open>Deduplication of locations\<close>

text \<open>
  Claim C3, at an input where it fails. The two locations of \<open>collidingLocations\<close>
  differ in file and in element, and the second is dropped: the key joins the three
  fields with colons, and both keys are \<^verbatim>\<open>a:::x\<close>.
\<close>

theorem uniqueLocations_key_collision:
  "uniqueLocations collidingLocations = [hd collidingLocations] \<and>
   filename (collidingLocations ! 1) \<noteq> filename (collidingLocations ! 0) \<and>
   element (collidingLocations ! 1) \<noteq> element (collidingLocations ! 0) \<and>
   locationKey (collidingLocations ! 1) = locationKey (collidingLocations ! 0)"
  by (simp add: collidingLocations_def uniqueLocations_def locationKey_def str_def)

text \<open>
  Where the keys of the locations of a list are pairwise different, deduplication is as
  the specification states it; and it is idempotent on every list.
\<close>

lemma uniqueLocationsFrom_injective:
  "inj_on locationKey (S \<union> set locs)
     \<Longrightarrow> uniqueLocationsFrom (locationKey ` S) locs = firstOccurrences S locs"
proof (induction locs arbitrary: S)
  case Nil
  then show ?case by simp
next
  case (Cons l locs)
  have mem: "(locationKey l \<in> locationKey ` S) = (l \<in> S)"
    using Cons.prems by (auto simp add: inj_on_def)
  have "inj_on locationKey (S \<union> set locs)" "inj_on locationKey (insert l S \<union> set locs)"
    using Cons.prems by (auto elim: inj_on_subset)
  with Cons.IH [of S] Cons.IH [of "insert l S"] mem show ?case
    by (simp add: Let_def)
qed

lemma uniqueLocations_injective:
  "inj_on locationKey (set locs) \<Longrightarrow> uniqueLocations locs = firstOccurrences {} locs"
  using uniqueLocationsFrom_injective [of "{}" locs] by (simp add: uniqueLocations_def)

lemma uniqueLocationsFrom_subset: "set (uniqueLocationsFrom seen locs) \<subseteq> set locs"
  by (induction locs arbitrary: seen) (auto simp add: Let_def)

lemma uniqueLocationsFrom_fresh:
  "locationKey ` set (uniqueLocationsFrom seen locs) \<inter> seen = {}"
  by (induction locs arbitrary: seen) (auto simp add: Let_def)

lemma uniqueLocationsFrom_distinct: "distinct (map locationKey (uniqueLocationsFrom seen locs))"
proof (induction locs arbitrary: seen)
  case Nil
  then show ?case by simp
next
  case (Cons l locs)
  show ?case
    using Cons.IH [of seen] Cons.IH [of "insert (locationKey l) seen"]
      uniqueLocationsFrom_fresh [of "insert (locationKey l) seen" locs]
    by (auto simp add: Let_def)
qed

lemma uniqueLocationsFrom_unchanged:
  "distinct (map locationKey locs) \<Longrightarrow> locationKey ` set locs \<inter> seen = {}
     \<Longrightarrow> uniqueLocationsFrom seen locs = locs"
  by (induction locs arbitrary: seen) (auto simp add: Let_def)

lemma uniqueLocations_idempotent: "uniqueLocations (uniqueLocations locs) = uniqueLocations locs"
  unfolding uniqueLocations_def
  by (rule uniqueLocationsFrom_unchanged) (simp_all add: uniqueLocationsFrom_distinct)

text \<open>
  The keys are pairwise different when no file name has a colon: the decimal rendering
  of a line number has none, and determines the number.
\<close>

lemma digits_nonempty: "digits n \<noteq> []"
  by (subst digits.simps) simp

lemma digits_decode: "foldl (\<lambda>a c. 10 * a + (c - 48)) 0 (digits n) = n"
proof (induction n rule: digits.induct)
  case (1 n)
  show ?case
  proof (cases "n < 10")
    case True
    then show ?thesis by (simp add: digits.simps [of n])
  next
    case False
    with "1.IH" show ?thesis by (simp add: digits.simps [of n])
  qed
qed

lemma digits_inj: "digits m = digits n \<Longrightarrow> m = n"
  by (metis digits_decode)

lemma showNumber_inj: "showNumber i = showNumber j \<Longrightarrow> i = j"
proof -
  assume eq: "showNumber i = showNumber j"
  have first: "hd (digits n) \<noteq> 45" for n
    using digits_chars [of "hd (digits n)" n] digits_nonempty [of n] by (auto dest: hd_in_set)
  have neg: "showNumber k = 45 # digits (nat (- k))" if "k < 0" for k
    using that by (simp add: showNumber_def)
  have pos: "showNumber k = digits (nat k)" if "\<not> k < 0" for k
    using that by (simp add: showNumber_def)
  show ?thesis
  proof (cases "i < 0")
    case True
    show ?thesis
    proof (cases "j < 0")
      case j: True
      with True eq have "digits (nat (- i)) = digits (nat (- j))" by (simp add: neg)
      then have "nat (- i) = nat (- j)" by (rule digits_inj)
      with True j show ?thesis by simp
    next
      case j: False
      with True eq have "45 # digits (nat (- i)) = digits (nat j)" by (simp add: neg pos)
      then have "hd (digits (nat j)) = 45" by (metis list.sel(1))
      with first show ?thesis by blast
    qed
  next
    case False
    show ?thesis
    proof (cases "j < 0")
      case j: True
      with False eq have "digits (nat i) = 45 # digits (nat (- j))" by (simp add: neg pos)
      then have "hd (digits (nat i)) = 45" by (metis list.sel(1))
      with first show ?thesis by blast
    next
      case j: False
      with False eq have "digits (nat i) = digits (nat j)" by (simp add: pos)
      then have "nat i = nat j" by (rule digits_inj)
      with False j show ?thesis by simp
    qed
  qed
qed

lemma showNumber_no_colon: "58 \<notin> set (showNumber n)"
  by (auto simp add: showNumber_def dest: digits_chars)

lemma showNumber_nonempty: "showNumber n \<noteq> []"
  by (simp add: showNumber_def digits_nonempty)

lemma split_at_colon:
  "58 \<notin> set a \<Longrightarrow> 58 \<notin> set a' \<Longrightarrow> a @ 58 # b = a' @ 58 # b' \<Longrightarrow> a = a' \<and> b = b'"
proof (induction a arbitrary: a')
  case Nil
  then show ?case by (cases a') auto
next
  case (Cons x a)
  then show ?case by (cases a') auto
qed

lemma locationKey_inj:
  assumes "\<forall>l \<in> A. 58 \<notin> set (filename l)"
  shows "inj_on locationKey A"
proof (rule inj_onI)
  fix l l'
  assume l: "l \<in> A" and l': "l' \<in> A" and eq: "locationKey l = locationKey l'"
  let ?n = "\<lambda>l. case line l of None \<Rightarrow> [] | Some n \<Rightarrow> showNumber n"
  have n: "58 \<notin> set (?n l)" "58 \<notin> set (?n l')"
    by (simp_all add: showNumber_no_colon split: option.splits)
  from eq have "filename l @ 58 # (?n l @ 58 # element l) = filename l' @ 58 # (?n l' @ 58 # element l')"
    by (simp add: locationKey_def str_def)
  with assms l l' have f: "filename l = filename l'"
    and r: "?n l @ 58 # element l = ?n l' @ 58 # element l'"
    using split_at_colon [of "filename l" "filename l'"] by blast+
  from r n have "?n l = ?n l'" and e: "element l = element l'"
    using split_at_colon [of "?n l" "?n l'"] by blast+
  then have "line l = line l'"
    by (auto split: option.splits simp add: showNumber_nonempty dest: showNumber_inj
        dest: sym [THEN showNumber_nonempty [THEN notE]])
  with f e show "l = l'" by simp
qed

lemma uniqueLocations_without_colons:
  "\<forall>l \<in> set locs. 58 \<notin> set (filename l) \<Longrightarrow> uniqueLocations locs = firstOccurrences {} locs"
  by (intro uniqueLocations_injective locationKey_inj)

subsection \<open>The grouping key\<close>

lemma primaryElement_firstNamedElement: "primaryElement locs = firstNamedElement locs"
  by (induction locs) (simp_all add: primaryElement_def firstNamedElement_def)

lemma groupKey_eligible:
  "check a = str ''missing-zero-check'' \<Longrightarrow> check b = str ''missing-zero-check''
     \<Longrightarrow> (groupKey a = groupKey b) = (primaryElement (locations a) = primaryElement (locations b))"
  by (simp add: groupKey_def)

text \<open>
  Claim C4 as stated fails: the first location of \<open>unnamedFirstLocation\<close> has the
  empty element name, and the key is built from the name \<^verbatim>\<open>to\<close> of its second
  location, so that the finding is merged with \<open>namedLater\<close>.
\<close>

theorem groupKey_unnamed_first_location:
  "groupKey unnamedFirstLocation = str ''missing-zero-check@@to'' \<and>
   check unnamedFirstLocation @ str ''@@'' @ element (hd (locations unnamedFirstLocation))
     = str ''missing-zero-check@@'' \<and>
   length (groupByCheckAndElement [unnamedFirstLocation, namedLater]) = 1"
  by (simp add: unnamedFirstLocation_def namedLater_def group_eval example_eval)

text \<open>
  Claim C4, amended. For findings of the check \<^verbatim>\<open>missing-zero-check\<close> the key is the
  check identifier, \<^verbatim>\<open>@@\<close> and the primary symbol, where the primary symbol is the
  element name of the first location whose element name is not empty (the empty string
  when there is none); two such findings have the same key exactly when their primary
  symbols agree, and exactly then the grouper merges them.
\<close>

theorem groupKey_first_named_element:
  assumes "check a = str ''missing-zero-check''" and "check b = str ''missing-zero-check''"
  shows "groupKey a = check a @ str ''@@'' @ firstNamedElement (locations a) \<and>
         (groupKey a = groupKey b)
           = (firstNamedElement (locations a) = firstNamedElement (locations b)) \<and>
         groupByCheckAndElement [a, b] =
           (if firstNamedElement (locations a) = firstNamedElement (locations b)
            then [a\<lparr>locations := uniqueLocations (uniqueLocations (locations a) @ locations b)\<rparr>]
            else [a\<lparr>locations := uniqueLocations (locations a)\<rparr>,
                  b\<lparr>locations := uniqueLocations (locations b)\<rparr>])"
  using assms groupKey_eligible [OF assms]
  by (simp add: groupByCheckAndElement_def primaryElement_firstNamedElement groupKey_def)

text \<open>
  The two example findings share the primary symbol \<^verbatim>\<open>to\<close> and are merged.
\<close>

theorem groupKey_first_named_element_witness:
  "check unnamedFirstLocation = str ''missing-zero-check'' \<and>
   check namedLater = str ''missing-zero-check'' \<and>
   groupKey unnamedFirstLocation = groupKey namedLater \<and>
   firstNamedElement (locations unnamedFirstLocation) = str ''to'' \<and>
   groupByCheckAndElement [unnamedFirstLocation, namedLater]
     = [unnamedFirstLocation\<lparr>locations :=
          uniqueLocations (uniqueLocations (locations unnamedFirstLocation) @ locations namedLater)\<rparr>]"
proof -
  have a: "check unnamedFirstLocation = str ''missing-zero-check''"
    by (simp add: unnamedFirstLocation_def plainIssue_def normalizeIssue_def)
  have b: "check namedLater = str ''missing-zero-check''"
    by (simp add: namedLater_def plainIssue_def normalizeIssue_def)
  have c: "firstNamedElement (locations unnamedFirstLocation) = str ''to''"
    by (simp add: unnamedFirstLocation_def plainIssue_def normalizeIssue_def firstNamedElement_def str_def)
  have d: "firstNamedElement (locations namedLater) = str ''to''"
    by (simp add: namedLater_def plainIssue_def normalizeIssue_def firstNamedElement_def str_def)
  note t = groupKey_first_named_element [OF a b]
  from t have e: "(groupKey unnamedFirstLocation = groupKey namedLater)
      = (firstNamedElement (locations unnamedFirstLocation) = firstNamedElement (locations namedLater))"
    by blast
  have k: "groupKey unnamedFirstLocation = groupKey namedLater"
    by (simp only: e c d)
  from t have "groupByCheckAndElement [unnamedFirstLocation, namedLater]
     = [unnamedFirstLocation\<lparr>locations :=
          uniqueLocations (uniqueLocations (locations unnamedFirstLocation) @ locations namedLater)\<rparr>]"
    by (simp only: c d simp_thms if_True)
  with a b c k show ?thesis by blast
qed

subsection \<open>The buckets of the renderer\<close>

lemma byImpactLoop_buckets:
  "byImpactLoop m items = Inr m' \<Longrightarrow>
     bucketOf m' sev = bucketOf m sev @ filter (\<lambda>i. impact i = sev) items"
proof (induction items arbitrary: m)
  case Nil
  then show ?case by simp
next
  case (Cons it items)
  show ?case
  proof (cases "m (impact it)")
    case None
    with Cons.prems have "byImpactLoop (m(impact it \<mapsto> [it])) items = Inr m'"
      by (simp split: if_splits)
    from Cons.IH [OF this] None show ?thesis
      by (auto simp add: bucketOf_def)
  next
    case (Some bucket)
    with Cons.prems have "byImpactLoop (m(impact it \<mapsto> bucket @ [it])) items = Inr m'"
      by simp
    from Cons.IH [OF this] Some show ?thesis
      by (auto simp add: bucketOf_def)
  qed
qed

lemma byImpactLoop_total:
  "\<forall>it \<in> set items. impact it \<notin> set objectPrototypeKeys \<Longrightarrow> \<exists>m'. byImpactLoop m items = Inr m'"
  by (induction items arbitrary: m) (auto split: option.splits)

lemma byImpactInit_buckets: "bucketOf byImpactInit sev = []"
  by (simp add: bucketOf_def byImpactInit_def)

lemma impactOrder_not_inherited: "sev \<in> set impactOrder \<Longrightarrow> sev \<notin> set objectPrototypeKeys"
proof -
  have "str ''High'' \<notin> set objectPrototypeKeys" "str ''Medium'' \<notin> set objectPrototypeKeys"
    "str ''Low'' \<notin> set objectPrototypeKeys" "str ''Informational'' \<notin> set objectPrototypeKeys"
    by (simp_all add: objectPrototypeKeys_def str_def)
  moreover assume "sev \<in> set impactOrder"
  then have "sev = str ''High'' \<or> sev = str ''Medium'' \<or> sev = str ''Low'' \<or> sev = str ''Informational''"
    by (simp add: impactOrder_def)
  ultimately show ?thesis by blast
qed

lemma distinct_impactOrder: "distinct impactOrder"
  by (simp add: impactOrder_def str_def)

subsection \<open>Order after grouping\<close>

lemma groupLoop_passthrough:
  "snd (groupLoop grouped passthrough items)
     = passthrough @ filter (\<lambda>i. check i \<noteq> str ''missing-zero-check'') items"
  by (induction items arbitrary: grouped passthrough) (simp_all add: Let_def split: option.splits)

lemma update_present:
  "map_of al k = Some e \<Longrightarrow> withoutLocations v = withoutLocations e
     \<Longrightarrow> map (\<lambda>(k, v). (k, withoutLocations v)) (AList.update k v al)
           = map (\<lambda>(k, v). (k, withoutLocations v)) al"
  by (induction al) (auto split: if_splits)

lemma update_absent: "map_of al k = None \<Longrightarrow> AList.update k v al = al @ [(k, v)]"
  by (induction al) (auto split: if_splits)

lemma groupLoop_grouped:
  "map (\<lambda>(k, v). (k, withoutLocations v)) (fst (groupLoop grouped passthrough items))
     = map (\<lambda>(k, v). (k, withoutLocations v)) grouped
       @ map (\<lambda>i. (groupKey i, withoutLocations i))
           (firstSeen (fst ` set grouped) (filter (\<lambda>i. check i = str ''missing-zero-check'') items))"
proof (induction items arbitrary: grouped passthrough)
  case Nil
  then show ?case by simp
next
  case (Cons it items)
  show ?case
  proof (cases "check it = str ''missing-zero-check''")
    case False
    then show ?thesis using Cons.IH by simp
  next
    case True
    show ?thesis
    proof (cases "map_of grouped (groupKey it)")
      case None
      then have new: "groupKey it \<notin> fst ` set grouped"
        by (simp add: map_of_eq_None_iff)
      let ?g = "grouped @ [(groupKey it, it\<lparr>locations := uniqueLocations (locations it)\<rparr>)]"
      have "fst ` set ?g = insert (groupKey it) (fst ` set grouped)"
        by auto
      with Cons.IH [of ?g passthrough] True None new show ?thesis
        by (simp add: update_absent withoutLocations_def)
    next
      case (Some existing)
      then have old: "groupKey it \<in> fst ` set grouped"
        by (metis map_of_eq_None_iff option.distinct(1))
      let ?g = "AList.update (groupKey it)
          (existing\<lparr>locations := uniqueLocations (locations existing @ locations it)\<rparr>) grouped"
      have same: "map (\<lambda>(k, v). (k, withoutLocations v)) ?g
          = map (\<lambda>(k, v). (k, withoutLocations v)) grouped"
        using Some by (intro update_present) (simp_all add: withoutLocations_def)
      then have "map fst (map (\<lambda>(k, v). (k, withoutLocations v)) ?g)
          = map fst (map (\<lambda>(k, v). (k, withoutLocations v)) grouped)"
        by simp
      then have "map fst ?g = map fst grouped"
        by (simp add: case_prod_unfold comp_def)
      then have "fst ` set ?g = fst ` set grouped"
        by (metis set_map)
      with Cons.IH [of ?g passthrough] True Some old same show ?thesis
        by simp
    qed
  qed
qed

text \<open>The two parts of the grouper's result.\<close>

lemma groupByCheckAndElement_parts:
  "\<exists>merged.
     groupByCheckAndElement items
       = filter (\<lambda>i. check i \<noteq> str ''missing-zero-check'') items @ merged \<and>
     map withoutLocations merged
       = map withoutLocations
           (firstSeen {} (filter (\<lambda>i. check i = str ''missing-zero-check'') items))"
proof -
  obtain grouped passthrough where g: "groupLoop [] [] items = (grouped, passthrough)"
    by (cases "groupLoop [] [] items")
  have p: "passthrough = filter (\<lambda>i. check i \<noteq> str ''missing-zero-check'') items"
    using groupLoop_passthrough [of "[]" "[]" items] g by simp
  have "map (\<lambda>(k, v). (k, withoutLocations v)) grouped
      = map (\<lambda>i. (groupKey i, withoutLocations i))
          (firstSeen {} (filter (\<lambda>i. check i = str ''missing-zero-check'') items))"
    using groupLoop_grouped [of "[]" "[]" items] g by simp
  then have "map snd (map (\<lambda>(k, v). (k, withoutLocations v)) grouped)
      = map snd (map (\<lambda>i. (groupKey i, withoutLocations i))
          (firstSeen {} (filter (\<lambda>i. check i = str ''missing-zero-check'') items)))"
    by simp
  then have "map withoutLocations (map snd grouped)
      = map withoutLocations
          (firstSeen {} (filter (\<lambda>i. check i = str ''missing-zero-check'') items))"
    by (simp add: case_prod_unfold comp_def)
  moreover have "groupByCheckAndElement items = passthrough @ map snd grouped"
    by (simp add: groupByCheckAndElement_def g)
  ultimately show ?thesis using p by blast
qed

lemma firstSeen_subset: "set (firstSeen seen xs) \<subseteq> set xs"
  by (induction xs arbitrary: seen) auto

text \<open>Grouping introduces no severity.\<close>

lemma groupByCheckAndElement_impacts:
  "impact ` set (groupByCheckAndElement items) \<subseteq> impact ` set items"
proof -
  obtain merged where m: "groupByCheckAndElement items
      = filter (\<lambda>i. check i \<noteq> str ''missing-zero-check'') items @ merged"
    "map withoutLocations merged
      = map withoutLocations
          (firstSeen {} (filter (\<lambda>i. check i = str ''missing-zero-check'') items))"
    using groupByCheckAndElement_parts by blast
  have "map impact (map withoutLocations xs) = map impact xs" for xs :: "NormalizedIssue list"
    by (simp add: withoutLocations_def)
  with m(2) have "map impact merged
      = map impact (firstSeen {} (filter (\<lambda>i. check i = str ''missing-zero-check'') items))"
    by metis
  then have "impact ` set merged
      = impact ` set (firstSeen {} (filter (\<lambda>i. check i = str ''missing-zero-check'') items))"
    by (metis set_map)
  also have "\<dots> \<subseteq> impact ` set items"
    using firstSeen_subset [of "{}" "filter (\<lambda>i. check i = str ''missing-zero-check'') items"]
    by auto
  finally show ?thesis
    unfolding m(1) by auto
qed

text \<open>
  The report of the renderer for an ordered list of findings (none of whose impacts is
  an inherited property name): the sections of the severities that have findings, in the
  fixed order, each with the blocks of its findings in the order of the list.
\<close>

lemma renderMarkdownDeterministic_report:
  assumes "\<forall>it \<in> set xs. impact it \<notin> set objectPrototypeKeys"
  shows "renderMarkdownDeterministic address xs =
    Inr (let sections =
               join [10]
                 (map (\<lambda>sev. headingText sev @ [10, 10]
                          @ join [10] (map renderOne (filter (\<lambda>i. impact i = sev) xs)))
                    (filter (\<lambda>sev. filter (\<lambda>i. impact i = sev) xs \<noteq> []) impactOrder))
         in if sections = [] then noVulnerabilities address else sections)"
proof -
  obtain m where m: "byImpactLoop byImpactInit xs = Inr m"
    using byImpactLoop_total [OF assms] by blast
  have bucket: "bucketOf m sev = filter (\<lambda>i. impact i = sev) xs" for sev
    using byImpactLoop_buckets [OF m, of sev] by (simp add: byImpactInit_buckets)
  have "renderSection m = (\<lambda>sev. headingText sev @ [10, 10]
      @ join [10] (map renderOne (filter (\<lambda>i. impact i = sev) xs)))"
    by (rule ext) (simp add: renderSection_def headingText_def bucket)
  then show ?thesis
    by (simp add: renderMarkdownDeterministic_def m bucket Let_def)
qed

text \<open>
  Claim C5 as stated fails: the groupable finding comes first in \<open>zeroCheckFirst\<close>
  and last after grouping, also in the section of its severity.
\<close>

theorem grouping_reorders:
  "groupByCheckAndElement zeroCheckFirst = [zeroCheckFirst ! 1, zeroCheckFirst ! 0] \<and>
   check (zeroCheckFirst ! 0) = str ''missing-zero-check'' \<and>
   check (zeroCheckFirst ! 1) = str ''reentrancy-benign'' \<and>
   map_sum id (\<lambda>byImpact. bucketOf byImpact (str ''Low''))
       (byImpactLoop byImpactInit (groupByCheckAndElement zeroCheckFirst))
     = Inr [zeroCheckFirst ! 1, zeroCheckFirst ! 0]"
  by (simp add: zeroCheckFirst_def group_eval example_eval byImpactInit_def bucketOf_def
      objectPrototypeKeys_def)

text \<open>
  Claim C5, amended. The grouper returns the findings that are not eligible for
  grouping first, in input order, and after them one finding per grouping key, in the
  order of the first-seen instances of the keys and equal to them in every field but
  the locations; each severity section of the report consists of the severity's heading
  and the blocks of the findings of that severity, in that order.
\<close>

theorem grouping_order:
  "take (length (filter (\<lambda>i. check i \<noteq> str ''missing-zero-check'') items))
       (groupByCheckAndElement items)
     = filter (\<lambda>i. check i \<noteq> str ''missing-zero-check'') items \<and>
   map withoutLocations
       (drop (length (filter (\<lambda>i. check i \<noteq> str ''missing-zero-check'') items))
          (groupByCheckAndElement items))
     = map withoutLocations
         (firstSeen {} (filter (\<lambda>i. check i = str ''missing-zero-check'') items)) \<and>
   (byImpactLoop byImpactInit (groupByCheckAndElement items) = Inr byImpact \<longrightarrow>
      bucketOf byImpact sev = filter (\<lambda>i. impact i = sev) (groupByCheckAndElement items) \<and>
      renderSection byImpact sev
        = headingText sev @ [10, 10]
            @ join [10] (map renderOne
                (filter (\<lambda>i. impact i = sev) (groupByCheckAndElement items)))) \<and>
   (list_all (\<lambda>it. impact it \<notin> set objectPrototypeKeys) items \<longrightarrow>
      renderMarkdownDeterministic address (groupByCheckAndElement items) =
        Inr (let sections =
                   join [10]
                     (map (\<lambda>sev. headingText sev @ [10, 10]
                              @ join [10] (map renderOne
                                  (filter (\<lambda>i. impact i = sev) (groupByCheckAndElement items))))
                        (filter (\<lambda>sev. filter (\<lambda>i. impact i = sev) (groupByCheckAndElement items) \<noteq> [])
                           impactOrder))
             in if sections = [] then noVulnerabilities address else sections))"
proof -
  obtain merged where m: "groupByCheckAndElement items
      = filter (\<lambda>i. check i \<noteq> str ''missing-zero-check'') items @ merged"
    "map withoutLocations merged
      = map withoutLocations
          (firstSeen {} (filter (\<lambda>i. check i = str ''missing-zero-check'') items))"
    using groupByCheckAndElement_parts by blast
  have a: "take (length (filter (\<lambda>i. check i \<noteq> str ''missing-zero-check'') items))
       (groupByCheckAndElement items)
     = filter (\<lambda>i. check i \<noteq> str ''missing-zero-check'') items"
    and b: "map withoutLocations
       (drop (length (filter (\<lambda>i. check i \<noteq> str ''missing-zero-check'') items))
          (groupByCheckAndElement items))
     = map withoutLocations
         (firstSeen {} (filter (\<lambda>i. check i = str ''missing-zero-check'') items))"
    using m(2) by (simp_all add: m(1))
  have c: "bucketOf byImpact sev = filter (\<lambda>i. impact i = sev) (groupByCheckAndElement items) \<and>
      renderSection byImpact sev
        = headingText sev @ [10, 10]
            @ join [10] (map renderOne
                (filter (\<lambda>i. impact i = sev) (groupByCheckAndElement items)))"
    if "byImpactLoop byImpactInit (groupByCheckAndElement items) = Inr byImpact"
    using byImpactLoop_buckets [OF that, of sev]
    by (simp add: byImpactInit_buckets renderSection_def headingText_def)
  have d: "renderMarkdownDeterministic address (groupByCheckAndElement items) =
        Inr (let sections =
                   join [10]
                     (map (\<lambda>sev. headingText sev @ [10, 10]
                              @ join [10] (map renderOne
                                  (filter (\<lambda>i. impact i = sev) (groupByCheckAndElement items))))
                        (filter (\<lambda>sev. filter (\<lambda>i. impact i = sev) (groupByCheckAndElement items) \<noteq> [])
                           impactOrder))
             in if sections = [] then noVulnerabilities address else sections)"
    if "list_all (\<lambda>it. impact it \<notin> set objectPrototypeKeys) items"
  proof (rule renderMarkdownDeterministic_report)
    show "\<forall>it \<in> set (groupByCheckAndElement items). impact it \<notin> set objectPrototypeKeys"
      using that groupByCheckAndElement_impacts [of items]
      by (auto simp add: list_all_iff)
  qed
  from a b c d show ?thesis by blast
qed

text \<open>
  On \<open>zeroCheckFirst\<close>: the finding that is not groupable first, then the groupable
  one, both in the section \<^verbatim>\<open>Low\<close>, which is the whole report.
\<close>

theorem grouping_order_witness:
  "byImpactLoop byImpactInit (groupByCheckAndElement zeroCheckFirst)
     = Inr (byImpactInit(str ''Low'' \<mapsto> [zeroCheckFirst ! 1, zeroCheckFirst ! 0])) \<and>
   bucketOf (byImpactInit(str ''Low'' \<mapsto> [zeroCheckFirst ! 1, zeroCheckFirst ! 0])) (str ''Low'')
     = [zeroCheckFirst ! 1, zeroCheckFirst ! 0] \<and>
   renderSection (byImpactInit(str ''Low'' \<mapsto> [zeroCheckFirst ! 1, zeroCheckFirst ! 0])) (str ''Low'')
     = headingText (str ''Low'') @ [10, 10]
         @ join [10] [renderOne (zeroCheckFirst ! 1), renderOne (zeroCheckFirst ! 0)] \<and>
   take 1 (groupByCheckAndElement zeroCheckFirst) = [zeroCheckFirst ! 1] \<and>
   map withoutLocations (drop 1 (groupByCheckAndElement zeroCheckFirst))
     = map withoutLocations [zeroCheckFirst ! 0] \<and>
   list_all (\<lambda>it. impact it \<notin> set objectPrototypeKeys) zeroCheckFirst \<and>
   renderMarkdownDeterministic (str ''0xABC'') (groupByCheckAndElement zeroCheckFirst)
     = Inr (headingText (str ''Low'') @ [10, 10]
         @ join [10] [renderOne (zeroCheckFirst ! 1), renderOne (zeroCheckFirst ! 0)])"
proof -
  have g: "groupByCheckAndElement zeroCheckFirst = [zeroCheckFirst ! 1, zeroCheckFirst ! 0]"
    by (simp add: zeroCheckFirst_def group_eval example_eval)
  have a: "byImpactLoop byImpactInit (groupByCheckAndElement zeroCheckFirst)
     = Inr (byImpactInit(str ''Low'' \<mapsto> [zeroCheckFirst ! 1, zeroCheckFirst ! 0]))"
    unfolding g by (simp add: zeroCheckFirst_def example_eval byImpactInit_def)
  have n: "length (filter (\<lambda>i. check i \<noteq> str ''missing-zero-check'') zeroCheckFirst) = 1"
    "filter (\<lambda>i. check i \<noteq> str ''missing-zero-check'') zeroCheckFirst = [zeroCheckFirst ! 1]"
    "firstSeen {} (filter (\<lambda>i. check i = str ''missing-zero-check'') zeroCheckFirst) = [zeroCheckFirst ! 0]"
    by (simp_all add: zeroCheckFirst_def example_eval)
  have l: "length [zeroCheckFirst ! 1] = 1"
    by simp
  have i: "impact (zeroCheckFirst ! 0) = str ''Low''" "impact (zeroCheckFirst ! 1) = str ''Low''"
    by (simp_all add: zeroCheckFirst_def plainIssue_def normalizeIssue_def)
  have p: "list_all (\<lambda>it. impact it \<notin> set objectPrototypeKeys) zeroCheckFirst"
    by (simp add: zeroCheckFirst_def plainIssue_def normalizeIssue_def objectPrototypeKeys_def str_def)
  have f: "filter (\<lambda>i. impact i = sev) (groupByCheckAndElement zeroCheckFirst)
      = (if sev = str ''Low'' then [zeroCheckFirst ! 1, zeroCheckFirst ! 0] else [])" for sev
    unfolding g by (auto simp add: i simp del: One_nat_def)
  have o: "filter (\<lambda>sev. sev = str ''Low'') impactOrder = [str ''Low'']"
    by (simp add: impactOrder_def str_def)
  note t = grouping_order [where items = zeroCheckFirst and sev = "str ''Low''"
      and byImpact = "byImpactInit(str ''Low'' \<mapsto> [zeroCheckFirst ! 1, zeroCheckFirst ! 0])"
      and address = "str ''0xABC''"]
  from t have t1: "take 1 (groupByCheckAndElement zeroCheckFirst) = [zeroCheckFirst ! 1]"
    and t2: "map withoutLocations (drop 1 (groupByCheckAndElement zeroCheckFirst))
     = map withoutLocations [zeroCheckFirst ! 0]"
    by (simp_all only: n l simp_thms)
  from t a have t3: "bucketOf (byImpactInit(str ''Low'' \<mapsto> [zeroCheckFirst ! 1, zeroCheckFirst ! 0])) (str ''Low'')
     = [zeroCheckFirst ! 1, zeroCheckFirst ! 0]"
    and t4: "renderSection (byImpactInit(str ''Low'' \<mapsto> [zeroCheckFirst ! 1, zeroCheckFirst ! 0])) (str ''Low'')
     = headingText (str ''Low'') @ [10, 10]
         @ join [10] [renderOne (zeroCheckFirst ! 1), renderOne (zeroCheckFirst ! 0)]"
    by (simp_all only: f simp_thms if_True list.map)
  have h: "headingText (str ''Low'') \<noteq> []"
    by (simp add: headingText_def str_def)
  from t p have "renderMarkdownDeterministic (str ''0xABC'') (groupByCheckAndElement zeroCheckFirst)
     = Inr (let sections =
              join [10]
                (map (\<lambda>sev. headingText sev @ [10, 10]
                         @ join [10] (map renderOne
                             (filter (\<lambda>i. impact i = sev) (groupByCheckAndElement zeroCheckFirst))))
                   (filter (\<lambda>sev. filter (\<lambda>i. impact i = sev) (groupByCheckAndElement zeroCheckFirst) \<noteq> [])
                      impactOrder))
            in if sections = [] then noVulnerabilities (str ''0xABC'') else sections)"
    by blast
  also have "(\<lambda>sev. filter (\<lambda>i. impact i = sev) (groupByCheckAndElement zeroCheckFirst) \<noteq> [])
      = (\<lambda>sev. sev = str ''Low'')"
    by (rule ext) (simp add: f)
  finally have t5: "renderMarkdownDeterministic (str ''0xABC'') (groupByCheckAndElement zeroCheckFirst)
     = Inr (headingText (str ''Low'') @ [10, 10]
         @ join [10] [renderOne (zeroCheckFirst ! 1), renderOne (zeroCheckFirst ! 0)])"
    using h by (simp add: o f Let_def)
  from a t1 t2 t3 t4 p t5 show ?thesis by blast
qed

subsection \<open>Grouping twice\<close>

text \<open>
  Claim C8, at an input where it fails. The two findings of \<open>groupedTwice\<close> have
  different keys. Deduplication drops the only named location of the first one (its key
  collides with that of the location before it), so that after the first pass both have
  the primary symbol \<^verbatim>\<open>""\<close>, and the second pass merges them.
\<close>

theorem grouping_twice_differs:
  "length (groupByCheckAndElement groupedTwice) = 2 \<and>
   length (groupByCheckAndElement (groupByCheckAndElement groupedTwice)) = 1"
  by (simp add: groupedTwice_def group_eval example_eval)

text \<open>
  Where the keys of all the locations of the findings are pairwise different, and so
  where no file name has a colon, grouping is idempotent: the first pass stores every
  merged finding under the key it still has afterwards.
\<close>

lemma primaryElement_append:
  "primaryElement (xs @ ys) = (if primaryElement xs \<noteq> [] then primaryElement xs else primaryElement ys)"
  by (induction xs) (auto simp add: primaryElement_def)

lemma primaryElement_firstOccurrences:
  "\<forall>l \<in> S. element l = [] \<Longrightarrow> primaryElement (firstOccurrences S locs) = primaryElement locs"
proof (induction locs arbitrary: S)
  case Nil
  then show ?case by simp
next
  case (Cons l locs)
  show ?case
  proof (cases "element l = []")
    case True
    with Cons.prems have "\<forall>l' \<in> insert l S. element l' = []" by simp
    from Cons.IH [OF this] Cons.IH [OF Cons.prems] True show ?thesis
      by (simp add: primaryElement_def)
  next
    case False
    with Cons.prems have "l \<notin> S" by auto
    with False show ?thesis by (simp add: primaryElement_def)
  qed
qed

lemma primaryElement_uniqueLocations:
  "inj_on locationKey (set locs) \<Longrightarrow> primaryElement (uniqueLocations locs) = primaryElement locs"
  by (simp add: uniqueLocations_injective primaryElement_firstOccurrences)

lemma uniqueLocations_subset: "set (uniqueLocations locs) \<subseteq> set locs"
  by (simp add: uniqueLocations_def uniqueLocationsFrom_subset)

lemma uniqueLocations_unchanged:
  "distinct (map locationKey locs) \<Longrightarrow> uniqueLocations locs = locs"
  by (simp add: uniqueLocations_def uniqueLocationsFrom_unchanged)

lemma uniqueLocations_distinct: "distinct (map locationKey (uniqueLocations locs))"
  by (simp add: uniqueLocations_def uniqueLocationsFrom_distinct)

lemma set_update_subset: "set (AList.update k v al) \<subseteq> insert (k, v) (set al)"
  by (induction al) auto

lemma groupedEntry_new:
  assumes "inj_on locationKey A" "set (locations it) \<subseteq> A" "check it = str ''missing-zero-check''"
  shows "groupedEntry A (groupKey it, it\<lparr>locations := uniqueLocations (locations it)\<rparr>)"
proof -
  have inj: "inj_on locationKey (set (locations it))"
    using assms(1,2) by (rule inj_on_subset)
  have "set (uniqueLocations (locations it)) \<subseteq> A"
    using assms(2) uniqueLocations_subset [of "locations it"] by blast
  then show ?thesis
    using assms(3)
    by (simp add: groupedEntry_def groupKey_def primaryElement_uniqueLocations [OF inj]
        uniqueLocations_distinct)
qed

lemma groupedEntry_merged:
  assumes "inj_on locationKey A" "set (locations it) \<subseteq> A" "check it = str ''missing-zero-check''"
    and "groupedEntry A (groupKey it, existing)"
  shows "groupedEntry A (groupKey it,
           existing\<lparr>locations := uniqueLocations (locations existing @ locations it)\<rparr>)"
proof -
  from assms(4) have e: "check existing = str ''missing-zero-check''"
    "groupKey existing = groupKey it" "set (locations existing) \<subseteq> A"
    by (simp_all add: groupedEntry_def)
  have "set (locations existing @ locations it) \<subseteq> A"
    using e(3) assms(2) by simp
  with assms(1) have inj: "inj_on locationKey (set (locations existing @ locations it))"
    by (rule inj_on_subset)
  have same: "primaryElement (locations existing) = primaryElement (locations it)"
    using e(1,2) assms(3) by (simp add: groupKey_def)
  have "set (uniqueLocations (locations existing @ locations it)) \<subseteq> A"
    using e(3) assms(2) uniqueLocations_subset [of "locations existing @ locations it"] by auto
  then show ?thesis
    using e(1,2) same
    by (simp add: groupedEntry_def groupKey_def primaryElement_uniqueLocations [OF inj]
        primaryElement_append uniqueLocations_distinct)
qed

lemma groupLoop_entries:
  assumes "inj_on locationKey A"
  shows "allLocations items \<subseteq> A \<Longrightarrow> \<forall>e \<in> set grouped. groupedEntry A e
    \<Longrightarrow> distinct (map fst grouped)
    \<Longrightarrow> (\<forall>e \<in> set (fst (groupLoop grouped passthrough items)). groupedEntry A e)
         \<and> distinct (map fst (fst (groupLoop grouped passthrough items)))"
proof (induction items arbitrary: grouped passthrough)
  case Nil
  then show ?case by simp
next
  case (Cons it items)
  from Cons.prems(1) have rest: "allLocations items \<subseteq> A" and here: "set (locations it) \<subseteq> A"
    by (simp_all add: allLocations_def)
  show ?case
  proof (cases "check it = str ''missing-zero-check''")
    case False
    with Cons.IH [OF rest Cons.prems(2,3)] show ?thesis by simp
  next
    case True
    show ?thesis
    proof (cases "map_of grouped (groupKey it)")
      case None
      let ?g = "grouped @ [(groupKey it, it\<lparr>locations := uniqueLocations (locations it)\<rparr>)]"
      have "\<forall>e \<in> set ?g. groupedEntry A e"
        using Cons.prems(2) groupedEntry_new [OF assms here True] by simp
      moreover have "distinct (map fst ?g)"
        using Cons.prems(3) None by (simp add: map_of_eq_None_iff)
      ultimately have "(\<forall>e \<in> set (fst (groupLoop ?g passthrough items)). groupedEntry A e)
         \<and> distinct (map fst (fst (groupLoop ?g passthrough items)))"
        by (rule Cons.IH [OF rest])
      then show ?thesis
        using True None by (simp add: update_absent)
    next
      case (Some existing)
      then have "(groupKey it, existing) \<in> set grouped"
        by (rule map_of_SomeD)
      with Cons.prems(2) have "groupedEntry A (groupKey it, existing)"
        by blast
      note merged = groupedEntry_merged [OF assms here True this]
      let ?g = "AList.update (groupKey it)
          (existing\<lparr>locations := uniqueLocations (locations existing @ locations it)\<rparr>) grouped"
      have "\<forall>e \<in> set ?g. groupedEntry A e"
        using Cons.prems(2) merged
          set_update_subset [of "groupKey it"
            "existing\<lparr>locations := uniqueLocations (locations existing @ locations it)\<rparr>" grouped]
        by blast
      moreover have "distinct (map fst ?g)"
        using Cons.prems(3) by (rule distinct_update)
      ultimately have "(\<forall>e \<in> set (fst (groupLoop ?g passthrough items)). groupedEntry A e)
         \<and> distinct (map fst (fst (groupLoop ?g passthrough items)))"
        by (rule Cons.IH [OF rest])
      then show ?thesis
        using True Some by simp
    qed
  qed
qed

lemma groupLoop_skip:
  "\<forall>i \<in> set ps. check i \<noteq> str ''missing-zero-check''
     \<Longrightarrow> groupLoop grouped passthrough (ps @ rest) = groupLoop grouped (passthrough @ ps) rest"
  by (induction ps arbitrary: passthrough) simp_all

lemma groupLoop_second_pass:
  "\<forall>e \<in> set es. groupedEntry A e \<Longrightarrow> distinct (map fst (grouped @ es))
     \<Longrightarrow> groupLoop grouped passthrough (map snd es) = (grouped @ es, passthrough)"
proof (induction es arbitrary: grouped)
  case Nil
  then show ?case by simp
next
  case (Cons e es)
  from Cons.prems(1) have e: "check (snd e) = str ''missing-zero-check''" "groupKey (snd e) = fst e"
    "distinct (map locationKey (locations (snd e)))"
    by (simp_all add: groupedEntry_def)
  from Cons.prems(2) have "fst e \<notin> fst ` set grouped"
    by auto
  then have none: "map_of grouped (fst e) = None"
    by (simp add: map_of_eq_None_iff)
  have same: "(snd e)\<lparr>locations := uniqueLocations (locations (snd e))\<rparr> = snd e"
    by (simp add: uniqueLocations_unchanged [OF e(3)])
  have "groupLoop (grouped @ [e]) passthrough (map snd es) = ((grouped @ [e]) @ es, passthrough)"
    using Cons.prems by (intro Cons.IH) simp_all
  then show ?case
    using e(1,2) none same by (simp add: update_absent)
qed

lemma groupByCheckAndElement_idempotent:
  assumes "inj_on locationKey (allLocations items)"
  shows "groupByCheckAndElement (groupByCheckAndElement items) = groupByCheckAndElement items"
proof -
  obtain grouped passthrough where g: "groupLoop [] [] items = (grouped, passthrough)"
    by (cases "groupLoop [] [] items")
  have p: "\<forall>i \<in> set passthrough. check i \<noteq> str ''missing-zero-check''"
    using groupLoop_passthrough [of "[]" "[]" items] g by simp
  have "(\<forall>e \<in> set (fst (groupLoop [] [] items)). groupedEntry (allLocations items) e)
      \<and> distinct (map fst (fst (groupLoop [] [] items)))"
    using assms by (rule groupLoop_entries) simp_all
  with g have inv: "\<forall>e \<in> set grouped. groupedEntry (allLocations items) e" "distinct (map fst ([] @ grouped))"
    by simp_all
  have "groupLoop [] [] (passthrough @ map snd grouped) = groupLoop [] ([] @ passthrough) (map snd grouped)"
    using p by (rule groupLoop_skip)
  also have "\<dots> = ([] @ grouped, [] @ passthrough)"
    using inv by (rule groupLoop_second_pass)
  finally show ?thesis
    by (simp add: groupByCheckAndElement_def g)
qed

lemma groupByCheckAndElement_idempotent_without_colons:
  "\<forall>l \<in> allLocations items. 58 \<notin> set (filename l)
     \<Longrightarrow> groupByCheckAndElement (groupByCheckAndElement items) = groupByCheckAndElement items"
  by (intro groupByCheckAndElement_idempotent locationKey_inj)

subsection \<open>Text that starts no heading\<close>

lemma quiet_True_imp: "quiet True s \<Longrightarrow> quiet b s"
  by (cases s) auto

lemma quiet_append: "quiet b s \<Longrightarrow> quiet True t \<Longrightarrow> quiet b (s @ t)"
  by (induction s arbitrary: b) (auto intro: quiet_True_imp)

lemma quiet_no_terminator: "\<forall>c \<in> set s. \<not> isLineTerminator c \<Longrightarrow> quiet False s"
  by (induction s) auto

lemma quiet_showNumber: "quiet False (showNumber n)"
  by (rule quiet_no_terminator) (auto simp add: showNumber_def isLineTerminator_def dest: digits_chars)

lemma quiet_field: "headingFree f \<Longrightarrow> quiet False f"
  by (simp add: headingFree_def)

lemma quiet_field_append: "headingFree f \<Longrightarrow> quiet True t \<Longrightarrow> quiet False (f @ t)"
  by (simp add: headingFree_def quiet_append)

lemma quiet_showNumber_append: "quiet True t \<Longrightarrow> quiet False (showNumber n @ t)"
  by (simp add: quiet_showNumber quiet_append)

lemmas quiet_simps = quiet_field quiet_field_append quiet_showNumber quiet_showNumber_append
  str_def isLineTerminator_def

lemma join_quiet: "list_all (quiet True) ls \<Longrightarrow> quiet True (join [10] ls)"
  by (induction "[10::nat]" ls rule: join.induct) (auto intro!: quiet_append simp add: isLineTerminator_def)

lemma join_snoc_empty: "ls \<noteq> [] \<Longrightarrow> join sep (ls @ [[]]) = join sep ls @ sep"
  by (induction sep ls rule: join.induct) auto

lemma join_nonempty: "ls \<noteq> [] \<Longrightarrow> hd ls \<noteq> [] \<Longrightarrow> join sep ls \<noteq> []"
  by (induction sep ls rule: join.induct) auto

subsection \<open>The lines of a finding block\<close>

lemma headingFree_friendlyTitle: "headingFree c \<Longrightarrow> headingFree (friendlyTitle c)"
  by (simp add: friendlyTitle_def headingFree_def str_def isLineTerminator_def)

lemma headingFree_riskOf: "headingFree (description it) \<Longrightarrow> headingFree (riskOf it)"
  by (simp add: riskOf_def headingFree_def str_def isLineTerminator_def)

lemma headingFree_remediationOf: "headingFree (remediationOf it)"
  by (simp add: remediationOf_def headingFree_def str_def isLineTerminator_def)

lemma quiet_locationRow:
  "headingFree (filename l) \<Longrightarrow> headingFree (element l) \<Longrightarrow> quiet True (locationRow l)"
  by (simp add: locationRow_def quiet_simps split: option.splits)

lemma formatLocationsFrom_rows: "set (formatLocationsFrom seen locs) \<subseteq> locationRow ` set locs"
  by (induction locs arbitrary: seen) (auto simp add: Let_def)

lemma quiet_formatLocations:
  "list_all (\<lambda>l. headingFree (filename l) \<and> headingFree (element l)) locs
     \<Longrightarrow> list_all (quiet True) (formatLocations locs)"
  using formatLocationsFrom_rows [of "{}" locs]
  by (auto simp add: formatLocations_def list_all_iff quiet_locationRow)

lemma headingFree_primaryElement:
  "list_all (\<lambda>l. headingFree (filename l) \<and> headingFree (element l)) locs
     \<Longrightarrow> headingFree (primaryElement locs)"
  by (induction locs) (auto simp add: primaryElement_def headingFree_def)

lemma quiet_headerLines:
  assumes "list_all (\<lambda>l. headingFree (filename l) \<and> headingFree (element l)) (locations it)"
  shows "list_all (quiet True) (headerLines it)"
proof -
  have e: "headingFree (primaryElement (locations it))"
    using assms by (rule headingFree_primaryElement)
  have f: "headingFree (case locations it of [] \<Rightarrow> str ''(unknown file)'' | main # _ \<Rightarrow> filename main)"
    using assms by (cases "locations it") (simp_all add: headingFree_def str_def isLineTerminator_def)
  show ?thesis
    unfolding headerLines_def Let_def
    using e f quiet_formatLocations [OF assms]
    by (simp add: quiet_simps split: option.splits)
qed

lemma quiet_swc_title:
  assumes "swcHeadingFree m"
  shows "quiet True (str ''- **SWC:** ''
         @ (case swcId m of None \<Rightarrow> [] | Some i \<Rightarrow> if i = [] then [] else i @ str '': '')
         @ swcTitle m)"
proof (cases "swcId m")
  case None
  with assms show ?thesis by (simp add: swcHeadingFree_def quiet_simps)
next
  case (Some i)
  with assms show ?thesis by (simp add: swcHeadingFree_def quiet_simps)
qed

lemma quiet_swc_remediation:
  assumes "swcHeadingFree m"
  shows "quiet True (if remediation m \<noteq> [] then str ''- **SWC Remediation:** '' @ remediation m else [])"
  using assms by (simp add: swcHeadingFree_def quiet_simps)

lemma quiet_swc_references:
  assumes "swcHeadingFree m"
  shows "quiet True (if references m \<noteq> [] then
         str ''- **References:**'' @ [10] @ join [10] (map (\<lambda>r. str ''  - '' @ r) (references m))
       else [])"
proof -
  have rows: "quiet True (join [10] (map (\<lambda>r. str ''  - '' @ r) (references m)))"
    using assms by (intro join_quiet) (simp add: swcHeadingFree_def list_all_iff quiet_simps)
  have "quiet True (str ''- **References:**'' @ ([10] @ join [10] (map (\<lambda>r. str ''  - '' @ r) (references m))))"
  proof (rule quiet_append)
    show "quiet True (str ''- **References:**'')"
      by (simp add: quiet_simps)
    show "quiet True ([10] @ join [10] (map (\<lambda>r. str ''  - '' @ r) (references m)))"
      using rows by (simp only: append.simps quiet.simps isLineTerminator_def) simp
  qed
  then show ?thesis by simp
qed

lemma quiet_swcLines:
  assumes "case swc it of None \<Rightarrow> True | Some m \<Rightarrow> swcHeadingFree m"
  shows "quiet True (swcLines it)"
proof (cases "swc it")
  case None
  then show ?thesis by (simp add: swcLines_def)
next
  case (Some m)
  with assms have m: "swcHeadingFree m" by simp
  show ?thesis
    unfolding swcLines_def Some option.case
    using quiet_swc_title [OF m] quiet_swc_remediation [OF m] quiet_swc_references [OF m]
    by (intro join_quiet) (auto simp add: list_all_iff)
qed

text \<open>
  A block is a sub-heading line followed by text that starts no heading, and ends with
  a line feed.
\<close>

lemma renderOne_shape:
  assumes "issueHeadingFree it"
  shows "\<exists>body. renderOne it = 35 # 35 # 32 # body @ [10] \<and> quiet False body"
proof -
  let ?ls = "headerLines it
        @ [str ''- Confidence: '' @ confidence it,
           str ''- Issue: '' @ riskOf it,
           str ''- Recommendation: '' @ remediationOf it,
           swcLines it]"
  let ?body = "friendlyTitle (check it) @ 10 # join [10] ?ls"
  have h: "list_all (quiet True) (headerLines it)"
    using assms by (intro quiet_headerLines) (simp add: issueHeadingFree_def)
  have s: "quiet True (swcLines it)"
    using assms by (intro quiet_swcLines) (simp add: issueHeadingFree_def)
  have "list_all (quiet True) ?ls"
    using assms h s headingFree_riskOf [of it] headingFree_remediationOf [of it]
    by (simp add: issueHeadingFree_def quiet_simps)
  then have j: "quiet True (join [10] ?ls)"
    by (rule join_quiet)
  have t: "quiet False (friendlyTitle (check it))"
    using assms by (simp add: issueHeadingFree_def headingFree_friendlyTitle quiet_field)
  have q: "quiet False ?body"
    using t j by (intro quiet_append) (simp_all add: isLineTerminator_def)
  have "renderOne it = join [10] ((str ''## '' @ friendlyTitle (check it)) # (?ls @ [[]]))"
    by (simp add: renderOne_def)
  also have "\<dots> = (str ''## '' @ friendlyTitle (check it)) @ [10] @ join [10] (?ls @ [[]])"
    by (cases "?ls @ [[]]") simp_all
  also have "join [10] (?ls @ [[]]) = join [10] ?ls @ [10]"
    by (rule join_snoc_empty) simp
  finally have "renderOne it = 35 # 35 # 32 # ?body @ [10]"
    by (simp add: str_def)
  with q show ?thesis by blast
qed

subsection \<open>Scanning a rendered report\<close>

lemma matchHeading_other: "c \<noteq> 35 \<Longrightarrow> matchHeading sev (c # cs) = None"
  by (simp add: matchHeading_def headingText_def str_def)

lemma countHeadings_quiet:
  "quiet b s \<Longrightarrow> countHeadings (35 # p) b (s @ 10 # t) = countHeadings (35 # p) True t"
  by (induction s arbitrary: b) (auto simp add: isLineTerminator_def)

lemma afterFirstHeading_quiet:
  "quiet b s \<Longrightarrow> afterFirstHeading sev b (s @ 10 # t) = afterFirstHeading sev True t"
  by (induction s arbitrary: b) (auto simp add: isLineTerminator_def matchHeading_other)

lemma beforeNextTopHeading_quiet:
  "quiet b s \<Longrightarrow> beforeNextTopHeading b (s @ 10 # t) = s @ 10 # beforeNextTopHeading True t"
  by (induction s arbitrary: b) (auto simp add: isLineTerminator_def str_def)

lemma afterFirstHeading_quiet_end: "quiet b s \<Longrightarrow> afterFirstHeading sev b s = None"
  by (induction s arbitrary: b) (auto simp add: matchHeading_other)

lemma count2_block:
  "quiet False body \<Longrightarrow>
   countHeadings (str ''## '') True (35 # 35 # 32 # body @ 10 # t) = Suc (countHeadings (str ''## '') True t)"
  using countHeadings_quiet [of False body "[35, 32]" t]
  by (simp add: str_def isLineTerminator_def)

lemma count3_block:
  "quiet False body \<Longrightarrow>
   countHeadings (str ''### '') True (35 # 35 # 32 # body @ 10 # t) = countHeadings (str ''### '') True t"
  using countHeadings_quiet [of False body "[35, 35, 32]" t]
  by (simp add: str_def isLineTerminator_def)

lemma after_block:
  "quiet False body \<Longrightarrow>
   afterFirstHeading sev True (35 # 35 # 32 # body @ 10 # t) = afterFirstHeading sev True t"
  using afterFirstHeading_quiet [of False body sev t]
  by (simp add: isLineTerminator_def matchHeading_def headingText_def str_def matchHeading_other)

lemma top_block:
  "quiet False body \<Longrightarrow>
   beforeNextTopHeading True (35 # 35 # 32 # body @ 10 # t)
     = 35 # 35 # 32 # body @ 10 # beforeNextTopHeading True t"
  using beforeNextTopHeading_quiet [of False body t]
  by (simp add: str_def isLineTerminator_def)

lemma scan_newline:
  "countHeadings (str ''## '') True (10 # t) = countHeadings (str ''## '') True t"
  "countHeadings (str ''### '') True (10 # t) = countHeadings (str ''### '') True t"
  "afterFirstHeading sev True (10 # t) = afterFirstHeading sev True t"
  "beforeNextTopHeading True (10 # t) = 10 # beforeNextTopHeading True t"
  by (simp_all add: str_def isLineTerminator_def matchHeading_other)

lemmas scan_block = count2_block count3_block after_block top_block scan_newline

lemma blocks_scan:
  assumes "list_all issueHeadingFree its" "its \<noteq> []"
  shows "countHeadings (str ''## '') True (join [10] (map renderOne its) @ t)
           = length its + countHeadings (str ''## '') True t"
    and "countHeadings (str ''### '') True (join [10] (map renderOne its) @ t)
           = countHeadings (str ''### '') True t"
    and "afterFirstHeading sev True (join [10] (map renderOne its) @ t) = afterFirstHeading sev True t"
    and "beforeNextTopHeading True (join [10] (map renderOne its) @ t)
           = join [10] (map renderOne its) @ beforeNextTopHeading True t"
    and "\<exists>rest. join [10] (map renderOne its) = 35 # 35 # rest"
  using assms
proof (induction its arbitrary: t)
  case Nil
  {
    case 1 then show ?case by simp
  next
    case 2 then show ?case by simp
  next
    case 3 then show ?case by simp
  next
    case 4 then show ?case by simp
  next
    case 5 then show ?case by simp
  }
next
  case (Cons it its)
  {
    case 1
    from 1 obtain body where b: "renderOne it = 35 # 35 # 32 # body @ [10]" "quiet False body"
      using renderOne_shape [of it] by auto
    show ?case
    proof (cases its)
      case Nil
      with b show ?thesis by (simp add: scan_block del: countHeadings.simps(2))
    next
      case (Cons it' its')
      with 1 Cons.IH(1) [of t] have "countHeadings (str ''## '') True (join [10] (map renderOne its) @ t)
           = length its + countHeadings (str ''## '') True t" by simp
      with b Cons show ?thesis
        by (simp add: scan_block del: countHeadings.simps(2))
    qed
  next
    case 2
    from 2 obtain body where b: "renderOne it = 35 # 35 # 32 # body @ [10]" "quiet False body"
      using renderOne_shape [of it] by auto
    show ?case
    proof (cases its)
      case Nil
      with b show ?thesis by (simp add: scan_block del: countHeadings.simps(2))
    next
      case (Cons it' its')
      with 2 Cons.IH(2) [of t] have "countHeadings (str ''### '') True (join [10] (map renderOne its) @ t)
           = countHeadings (str ''### '') True t" by simp
      with b Cons show ?thesis
        by (simp add: scan_block del: countHeadings.simps(2))
    qed
  next
    case 3
    from 3 obtain body where b: "renderOne it = 35 # 35 # 32 # body @ [10]" "quiet False body"
      using renderOne_shape [of it] by auto
    show ?case
    proof (cases its)
      case Nil
      with b show ?thesis by (simp add: scan_block del: afterFirstHeading.simps(2))
    next
      case (Cons it' its')
      with 3 Cons.IH(3) [of t] have "afterFirstHeading sev True (join [10] (map renderOne its) @ t)
           = afterFirstHeading sev True t" by simp
      with b Cons show ?thesis
        by (simp add: scan_block del: afterFirstHeading.simps(2))
    qed
  next
    case 4
    from 4 obtain body where b: "renderOne it = 35 # 35 # 32 # body @ [10]" "quiet False body"
      using renderOne_shape [of it] by auto
    show ?case
    proof (cases its)
      case Nil
      with b show ?thesis by (simp add: scan_block del: beforeNextTopHeading.simps(2))
    next
      case (Cons it' its')
      with 4 Cons.IH(4) [of t] have "beforeNextTopHeading True (join [10] (map renderOne its) @ t)
           = join [10] (map renderOne its) @ beforeNextTopHeading True t" by simp
      with b Cons show ?thesis
        by (simp add: scan_block del: beforeNextTopHeading.simps(2))
    qed
  next
    case 5
    from 5 obtain body where b: "renderOne it = 35 # 35 # 32 # body @ [10]" "quiet False body"
      using renderOne_shape [of it] by auto
    then show ?case by (cases its) simp_all
  }
qed

lemma renderSection_headingText:
  "renderSection m sev = headingText sev @ 10 # 10 # join [10] (map renderOne (bucketOf m sev))"
  by (simp add: renderSection_def headingText_def)

lemma matchHeading_same: "matchHeading sev (headingText sev @ x) = trailingSpace False x"
  by (simp add: matchHeading_def)

lemma trailingSpace_blank_line: "trailingSpace False (10 # 10 # 35 # y) = Some (10 # 35 # y, True)"
  by (simp add: isWhiteSpace_def isLineTerminator_def)

lemma matchHeading_mismatch:
  "sev \<in> set impactOrder \<Longrightarrow> sev' \<in> set impactOrder \<Longrightarrow> sev \<noteq> sev'
     \<Longrightarrow> matchHeading sev (headingText sev' @ x) = None"
  by (auto simp add: impactOrder_def matchHeading_def headingText_def str_def)

lemma headingText_tail:
  "sev \<in> set impactOrder \<Longrightarrow> \<exists>s. headingText sev = 35 # 32 # s \<and> quiet False s"
  by (auto simp add: impactOrder_def headingText_def str_def isLineTerminator_def)

lemma afterFirstHeading_match:
  "matchHeading sev s = Some r \<Longrightarrow> afterFirstHeading sev True s = Some r"
  by (cases s) (simp_all add: matchHeading_def headingText_def str_def)

lemma after_section_same:
  assumes "list_all issueHeadingFree (bucketOf m sev)" "bucketOf m sev \<noteq> []"
  shows "afterFirstHeading sev True (renderSection m sev @ t)
           = Some (10 # join [10] (map renderOne (bucketOf m sev)) @ t, True)"
proof -
  obtain rest where r: "join [10] (map renderOne (bucketOf m sev)) = 35 # 35 # rest"
    using blocks_scan(5) [OF assms] by blast
  have "matchHeading sev (headingText sev @ 10 # 10 # 35 # 35 # rest @ t)
          = Some (10 # 35 # 35 # rest @ t, True)"
    by (simp only: matchHeading_same trailingSpace_blank_line)
  then have "afterFirstHeading sev True (headingText sev @ 10 # 10 # 35 # 35 # rest @ t)
          = Some (10 # 35 # 35 # rest @ t, True)"
    by (rule afterFirstHeading_match)
  then show ?thesis
    by (simp add: renderSection_headingText r)
qed

lemma after_section_other:
  assumes "list_all issueHeadingFree (bucketOf m sev')" "bucketOf m sev' \<noteq> []"
    and "sev \<in> set impactOrder" "sev' \<in> set impactOrder" "sev \<noteq> sev'"
  shows "afterFirstHeading sev True (renderSection m sev' @ t) = afterFirstHeading sev True t"
proof -
  let ?J = "join [10] (map renderOne (bucketOf m sev'))"
  obtain s where s: "headingText sev' = 35 # 32 # s" "quiet False s"
    using headingText_tail [OF assms(4)] by blast
  have "matchHeading sev (headingText sev' @ 10 # 10 # ?J @ t) = None"
    using assms(3-5) by (rule matchHeading_mismatch)
  then have "afterFirstHeading sev True (renderSection m sev' @ t)
          = afterFirstHeading sev False ((32 # s) @ 10 # 10 # ?J @ t)"
    by (simp add: renderSection_headingText s isLineTerminator_def)
  also have "\<dots> = afterFirstHeading sev True (10 # ?J @ t)"
    using s(2) by (intro afterFirstHeading_quiet) (simp add: isLineTerminator_def)
  also have "\<dots> = afterFirstHeading sev True t"
    by (simp only: scan_newline blocks_scan(3) [OF assms(1,2)])
  finally show ?thesis .
qed

lemma top_section: "beforeNextTopHeading True (renderSection m sev @ t) = []"
  by (simp add: renderSection_def str_def)

lemma doc_skip:
  assumes "\<forall>s \<in> set secs. s \<in> set impactOrder \<and> s \<noteq> sev \<and> bucketOf m s \<noteq> []
             \<and> list_all issueHeadingFree (bucketOf m s)"
    and "sev \<in> set impactOrder"
  shows "afterFirstHeading sev True (join [10] (map (renderSection m) secs) @ t)
           = afterFirstHeading sev True t"
  using assms(1)
proof (induction secs)
  case Nil
  then show ?case by simp
next
  case (Cons s secs)
  then have s: "list_all issueHeadingFree (bucketOf m s)" "bucketOf m s \<noteq> []"
    "s \<in> set impactOrder" "sev \<noteq> s"
    by auto
  show ?case
  proof (cases secs)
    case Nil
    then show ?thesis
      using after_section_other [OF s(1,2) assms(2) s(3,4)] by simp
  next
    case (Cons s' secs')
    have "afterFirstHeading sev True (join [10] (map (renderSection m) (s # secs)) @ t)
            = afterFirstHeading sev True
                (renderSection m s @ 10 # join [10] (map (renderSection m) secs) @ t)"
      using Cons by simp
    also have "\<dots> = afterFirstHeading sev True (10 # join [10] (map (renderSection m) secs) @ t)"
      by (rule after_section_other [OF s(1,2) assms(2) s(3,4)])
    also have "\<dots> = afterFirstHeading sev True t"
      using Cons.IH Cons.prems by (simp only: scan_newline) simp
    finally show ?thesis .
  qed
qed

lemma doc_section:
  assumes "\<forall>s \<in> set secs. s \<in> set impactOrder \<and> bucketOf m s \<noteq> []
             \<and> list_all issueHeadingFree (bucketOf m s)"
    and "distinct secs" "sev \<in> set secs"
  shows "\<exists>tail. specSectionOf sev (join [10] (map (renderSection m) secs))
            = 10 # join [10] (map renderOne (bucketOf m sev)) @ tail \<and> (tail = [] \<or> tail = [10])"
  using assms
proof (induction secs)
  case Nil
  then show ?case by simp
next
  case (Cons s secs)
  then have s: "list_all issueHeadingFree (bucketOf m s)" "bucketOf m s \<noteq> []" "s \<in> set impactOrder"
    by auto
  let ?J = "join [10] (map renderOne (bucketOf m sev))"
  let ?D = "join [10] (map (renderSection m) secs)"
  show ?case
  proof (cases "s = sev")
    case True
    with s have b: "list_all issueHeadingFree (bucketOf m sev)" "bucketOf m sev \<noteq> []"
      by simp_all
    show ?thesis
    proof (cases secs)
      case Nil
      have "afterFirstHeading sev True (renderSection m sev @ []) = Some (10 # ?J @ [], True)"
        using b by (rule after_section_same)
      moreover have "beforeNextTopHeading True (10 # ?J @ []) = 10 # ?J @ []"
        using blocks_scan(4) [OF b, of "[]"] by (simp add: scan_newline del: beforeNextTopHeading.simps(2))
      ultimately show ?thesis
        using Nil True by (simp add: specSectionOf_def del: beforeNextTopHeading.simps(2))
    next
      case (Cons s' secs')
      have "afterFirstHeading sev True (renderSection m sev @ 10 # ?D) = Some (10 # ?J @ 10 # ?D, True)"
        using b by (rule after_section_same)
      moreover have "beforeNextTopHeading True ?D = []"
      proof (cases secs')
        case Nil
        with Cons show ?thesis using top_section [of m s' "[]"] by simp
      next
        case (Cons s'' secs'')
        with \<open>secs = s' # secs'\<close> show ?thesis
          using top_section [of m s' "10 # join [10] (map (renderSection m) secs')"] by simp
      qed
      then have "beforeNextTopHeading True (10 # ?J @ 10 # ?D) = 10 # ?J @ [10]"
        using blocks_scan(4) [OF b, of "10 # ?D"]
        by (simp add: scan_newline del: beforeNextTopHeading.simps(2))
      ultimately show ?thesis
        using Cons True by (simp add: specSectionOf_def del: beforeNextTopHeading.simps(2))
    qed
  next
    case False
    with Cons.prems have in_rest: "sev \<in> set secs" by simp
    then obtain s' secs' where secs: "secs = s' # secs'" by (cases secs) auto
    from Cons.prems in_rest have sev: "sev \<in> set impactOrder" by auto
    have "afterFirstHeading sev True (renderSection m s @ 10 # ?D) = afterFirstHeading sev True (10 # ?D)"
      using s sev False by (intro after_section_other) simp_all
    then have "specSectionOf sev (join [10] (map (renderSection m) (s # secs))) = specSectionOf sev ?D"
      using secs by (simp add: specSectionOf_def scan_newline del: afterFirstHeading.simps(2))
    with Cons.IH Cons.prems in_rest show ?thesis by simp
  qed
qed

lemma doc_count:
  assumes "\<forall>s \<in> set secs. s \<in> set impactOrder \<and> bucketOf m s \<noteq> []
             \<and> list_all issueHeadingFree (bucketOf m s)"
    and "distinct secs" "sev \<in> set secs"
  shows "specSubHeadingCount sev (join [10] (map (renderSection m) secs)) = length (bucketOf m sev)"
proof -
  from assms have b: "list_all issueHeadingFree (bucketOf m sev)" "bucketOf m sev \<noteq> []"
    by auto
  obtain tail where t: "specSectionOf sev (join [10] (map (renderSection m) secs))
      = 10 # join [10] (map renderOne (bucketOf m sev)) @ tail" "tail = [] \<or> tail = [10]"
    using doc_section [OF assms] by blast
  have "countHeadings (str ''## '') True tail = 0" "countHeadings (str ''### '') True tail = 0"
    using t(2) by (auto simp add: str_def)
  then show ?thesis
    unfolding specSubHeadingCount_def t(1) Let_def
    by (simp add: scan_newline blocks_scan(1,2) [OF b] del: countHeadings.simps(2))
qed

lemma renderSection_nonempty: "renderSection m sev \<noteq> []"
  by (simp add: renderSection_def str_def)

lemma quiet_noVulnerabilities: "headingFree address \<Longrightarrow> quiet True (noVulnerabilities address)"
  by (simp add: noVulnerabilities_def quiet_simps)

subsection \<open>Sub-headings of the rendered report\<close>

text \<open>
  Claim C6 as stated fails: the description of \<open>headingInDescription\<close>, a finding of
  an unlisted check, is echoed as the risk sentence, and its second line is a second
  sub-heading under the heading of the one finding.
\<close>

theorem renderer_heading_in_description:
  "impact headingInDescription = str ''High'' \<and>
   map_sum id (specSubHeadingCount (str ''High''))
     (renderMarkdownDeterministic (str ''0xABC'') [headingInDescription]) = Inr 2 \<and>
   findingsOf (str ''High'') [headingInDescription] = 1"
  by (simp add: headingInDescription_def example_eval render_eval validate_eval primaryElement_def)

text \<open>
  Claim C6, amended. For every finding set whose findings all carry one of the four
  severities and in which no text that the renderer copies into the report (check
  identifier, confidence, description, file and element names, the fields of the
  knowledge entry; and the subject address) has a line terminator followed by
  \<^verbatim>\<open>#\<close>, the renderer returns a report in which, for each severity, the number of
  sub-headings under the severity's top-level heading is the number of findings of that
  severity, and which has no top-level heading for a severity without findings.
\<close>

theorem renderer_counts:
  assumes "list_all (\<lambda>it. impact it \<in> set impactOrder \<and> issueHeadingFree it) items"
    and "headingFree address"
  shows "\<exists>md. renderMarkdownDeterministic address items = Inr md \<and>
           (\<forall>sev \<in> set impactOrder.
              specSubHeadingCount sev md = findingsOf sev items \<and>
              (findingsOf sev items = 0 \<longrightarrow> \<not> hasTopHeading sev md))"
proof -
  from assms(1) have "\<forall>it \<in> set items. impact it \<notin> set objectPrototypeKeys"
    by (auto simp add: list_all_iff dest: impactOrder_not_inherited)
  then obtain m where m: "byImpactLoop byImpactInit items = Inr m"
    using byImpactLoop_total by blast
  have bucket: "bucketOf m sev = filter (\<lambda>i. impact i = sev) items" for sev
    using byImpactLoop_buckets [OF m, of sev] by (simp add: byImpactInit_buckets)
  define secs where "secs = filter (\<lambda>sev. length (bucketOf m sev) \<noteq> 0) impactOrder"
  define doc where "doc = join [10] (map (renderSection m) secs)"
  have render: "renderMarkdownDeterministic address items
      = Inr (if doc = [] then noVulnerabilities address else doc)"
    by (simp add: renderMarkdownDeterministic_def m doc_def secs_def)
  have good: "\<forall>s \<in> set secs. s \<in> set impactOrder \<and> bucketOf m s \<noteq> []
      \<and> list_all issueHeadingFree (bucketOf m s)"
    using assms(1) by (auto simp add: secs_def bucket list_all_iff)
  have dist: "distinct secs"
    by (simp add: secs_def distinct_impactOrder)
  have "specSubHeadingCount sev (if doc = [] then noVulnerabilities address else doc)
          = findingsOf sev items \<and>
        (findingsOf sev items = 0 \<longrightarrow>
           \<not> hasTopHeading sev (if doc = [] then noVulnerabilities address else doc))"
    if sev: "sev \<in> set impactOrder" for sev
  proof (cases "sev \<in> set secs")
    case True
    then have "secs \<noteq> []" by auto
    then have "doc \<noteq> []"
      unfolding doc_def by (intro join_nonempty) (simp_all add: hd_map renderSection_nonempty)
    moreover have "specSubHeadingCount sev doc = length (bucketOf m sev)"
      unfolding doc_def using good dist True by (rule doc_count)
    moreover have "findingsOf sev items \<noteq> 0"
      using True by (simp add: secs_def findingsOf_def bucket)
    ultimately show ?thesis
      by (simp add: findingsOf_def bucket)
  next
    case False
    with sev have zero: "findingsOf sev items = 0"
      by (simp add: secs_def findingsOf_def bucket)
    have no: "afterFirstHeading sev True (if doc = [] then noVulnerabilities address else doc) = None"
    proof (cases "doc = []")
      case True
      then show ?thesis
        using afterFirstHeading_quiet_end [OF quiet_noVulnerabilities [OF assms(2)], of sev] by simp
    next
      case nonempty: False
      have "\<forall>s \<in> set secs. s \<in> set impactOrder \<and> s \<noteq> sev \<and> bucketOf m s \<noteq> []
          \<and> list_all issueHeadingFree (bucketOf m s)"
        using good False by auto
      from doc_skip [OF this sev, of "[]"] nonempty show ?thesis
        by (simp add: doc_def)
    qed
    then show ?thesis
      using zero by (simp add: specSubHeadingCount_def specSectionOf_def hasTopHeading_def)
  qed
  with render show ?thesis by blast
qed

lemma examples_heading_free:
  "list_all (\<lambda>it. impact it \<in> set impactOrder \<and> issueHeadingFree it) [exampleReentrancy, exampleNaming]"
  by (simp add: exampleReentrancy_def exampleNaming_def normalizeIssue_def impactOrder_def
      issueHeadingFree_def headingFree_def str_def isLineTerminator_def)

text \<open>
  The two example issues: one sub-heading under \<^verbatim>\<open>Medium\<close> and one under
  \<^verbatim>\<open>Informational\<close>, no heading for the other two severities.
\<close>

theorem renderer_counts_witness:
  "list_all (\<lambda>it. impact it \<in> set impactOrder \<and> issueHeadingFree it) [exampleReentrancy, exampleNaming] \<and>
   headingFree (str ''0xABC'') \<and>
   map_sum id (\<lambda>md. map (\<lambda>sev. specSubHeadingCount sev md) impactOrder)
       (renderMarkdownDeterministic (str ''0xABC'') [exampleReentrancy, exampleNaming])
     = Inr [0, 1, 0, 1] \<and>
   map_sum id (\<lambda>md. hasTopHeading (str ''High'') md \<or> hasTopHeading (str ''Low'') md)
       (renderMarkdownDeterministic (str ''0xABC'') [exampleReentrancy, exampleNaming])
     = Inr False"
proof -
  have h: "headingFree (str ''0xABC'')"
    by (simp add: headingFree_def str_def isLineTerminator_def)
  obtain md where md: "renderMarkdownDeterministic (str ''0xABC'') [exampleReentrancy, exampleNaming] = Inr md"
    and c: "\<forall>sev \<in> set impactOrder.
        specSubHeadingCount sev md = findingsOf sev [exampleReentrancy, exampleNaming] \<and>
        (findingsOf sev [exampleReentrancy, exampleNaming] = 0 \<longrightarrow> \<not> hasTopHeading sev md)"
    using renderer_counts [OF examples_heading_free h] by blast
  have f: "findingsOf (str ''High'') [exampleReentrancy, exampleNaming] = 0"
    "findingsOf (str ''Medium'') [exampleReentrancy, exampleNaming] = 1"
    "findingsOf (str ''Low'') [exampleReentrancy, exampleNaming] = 0"
    "findingsOf (str ''Informational'') [exampleReentrancy, exampleNaming] = 1"
    by (simp_all add: findingsOf_def exampleReentrancy_def exampleNaming_def
        normalizeIssue_def str_def)
  from c have "specSubHeadingCount (str ''High'') md = 0" "specSubHeadingCount (str ''Medium'') md = 1"
    "specSubHeadingCount (str ''Low'') md = 0" "specSubHeadingCount (str ''Informational'') md = 1"
    "\<not> hasTopHeading (str ''High'') md" "\<not> hasTopHeading (str ''Low'') md"
    by (simp_all add: impactOrder_def f)
  with examples_heading_free h show ?thesis
    by (simp add: md impactOrder_def)
qed

subsection \<open>Unrecognized severities\<close>

text \<open>
  Claim C10, at an input where it fails. The impact \<^verbatim>\<open>constructor\<close> is none of the
  four severities; the renderer does not return the sentence of the empty report, it
  raises a \<^verbatim>\<open>TypeError\<close>.
\<close>

theorem renderer_inherited_key:
  "renderMarkdownDeterministic (str ''0xABC'')
     [plainIssue (str ''shadowing-state'') (str ''constructor'') None []] = Inl TypeError"
  by (simp add: render_eval example_eval)

text \<open>
  For the impacts that are not inherited property names the claim holds: findings of an
  unrecognized severity leave no trace in the report, and a list of such findings renders
  as the empty list does.
\<close>

lemma renderMarkdownDeterministic_buckets:
  assumes "byImpactLoop byImpactInit xs = Inr m" "byImpactLoop byImpactInit ys = Inr m'"
    and "\<forall>sev \<in> set impactOrder. filter (\<lambda>i. impact i = sev) xs = filter (\<lambda>i. impact i = sev) ys"
  shows "renderMarkdownDeterministic address xs = renderMarkdownDeterministic address ys"
proof -
  have "bucketOf m sev = bucketOf m' sev" if "sev \<in> set impactOrder" for sev
    using that assms(3) byImpactLoop_buckets [OF assms(1), of sev]
      byImpactLoop_buckets [OF assms(2), of sev]
    by (simp add: byImpactInit_buckets)
  then have "filter (\<lambda>sev. length (bucketOf m sev) \<noteq> 0) impactOrder
      = filter (\<lambda>sev. length (bucketOf m' sev) \<noteq> 0) impactOrder"
    "map (renderSection m) (filter (\<lambda>sev. length (bucketOf m' sev) \<noteq> 0) impactOrder)
      = map (renderSection m') (filter (\<lambda>sev. length (bucketOf m' sev) \<noteq> 0) impactOrder)"
    by (auto intro!: filter_cong simp add: renderSection_def)
  then show ?thesis
    by (simp only: renderMarkdownDeterministic_def assms(1,2) sum.case)
qed

lemma renderer_drops_unrecognized:
  assumes "\<forall>it \<in> set items. impact it \<notin> set objectPrototypeKeys"
  shows "renderMarkdownDeterministic address items
           = renderMarkdownDeterministic address (filter (\<lambda>it. impact it \<in> set impactOrder) items)"
proof -
  obtain m where m: "byImpactLoop byImpactInit items = Inr m"
    using byImpactLoop_total [OF assms] by blast
  have "\<forall>it \<in> set (filter (\<lambda>it. impact it \<in> set impactOrder) items).
      impact it \<notin> set objectPrototypeKeys"
    using assms by simp
  then obtain m' where m': "byImpactLoop byImpactInit
      (filter (\<lambda>it. impact it \<in> set impactOrder) items) = Inr m'"
    using byImpactLoop_total by blast
  have "\<forall>sev \<in> set impactOrder. filter (\<lambda>i. impact i = sev) items
      = filter (\<lambda>i. impact i = sev) (filter (\<lambda>it. impact it \<in> set impactOrder) items)"
    by (auto intro: filter_cong)
  with m m' show ?thesis by (rule renderMarkdownDeterministic_buckets)
qed

lemma renderer_all_unrecognized:
  assumes "\<forall>it \<in> set items. impact it \<notin> set objectPrototypeKeys \<and> impact it \<notin> set impactOrder"
  shows "renderMarkdownDeterministic address items = Inr (noVulnerabilities address)"
proof -
  have "filter (\<lambda>it. impact it \<in> set impactOrder) items = []"
    using assms by (simp add: filter_empty_conv)
  moreover have "renderMarkdownDeterministic address [] = Inr (noVulnerabilities address)"
    by (simp add: renderMarkdownDeterministic_def byImpactInit_def bucketOf_def impactOrder_def)
  ultimately show ?thesis
    using renderer_drops_unrecognized [of items address] assms by simp
qed

subsection \<open>Counts of the validator\<close>

text \<open>
  An accepted candidate has, for each severity, as many sub-headings as findings, in
  the count of \<open>parseCountsFromMarkdown\<close>: from the heading to the end of the document.
\<close>

lemma validateOrFallback_counts:
  "validateOrFallback md items \<Longrightarrow> sev \<in> set impactOrder
     \<Longrightarrow> parseCountsFromMarkdown md sev = findingsOf sev items"
  by (auto simp add: validateOrFallback_def list_all_iff countsByImpact_findingsOf)

text \<open>
  The section that the validator counts in ends only at a second heading of the same
  severity. In a report of the deterministic renderer the section of the first severity
  therefore holds the sub-headings of all the later ones.
\<close>

lemma beforeNextHeading_quiet:
  "quiet b s \<Longrightarrow> beforeNextHeading sev b (s @ 10 # t) = s @ 10 # beforeNextHeading sev True t"
  by (induction s arbitrary: b) (auto simp add: isLineTerminator_def matchHeading_other)

lemma beforeNextHeading_block:
  "quiet False body \<Longrightarrow>
   beforeNextHeading sev True (35 # 35 # 32 # body @ 10 # t)
     = 35 # 35 # 32 # body @ 10 # beforeNextHeading sev True t"
  using beforeNextHeading_quiet [of False body sev t]
  by (simp add: isLineTerminator_def matchHeading_def headingText_def str_def)

lemma beforeNextHeading_newline:
  "beforeNextHeading sev True (10 # t) = 10 # beforeNextHeading sev True t"
  by (simp add: isLineTerminator_def matchHeading_other)

lemma beforeNextHeading_blocks:
  assumes "list_all issueHeadingFree its" "its \<noteq> []"
  shows "beforeNextHeading sev True (join [10] (map renderOne its) @ t)
           = join [10] (map renderOne its) @ beforeNextHeading sev True t"
  using assms
proof (induction its)
  case Nil
  then show ?case by simp
next
  case (Cons it its)
  then obtain body where b: "renderOne it = 35 # 35 # 32 # body @ [10]" "quiet False body"
    using renderOne_shape [of it] by auto
  show ?case
  proof (cases its)
    case Nil
    with b show ?thesis
      by (simp add: beforeNextHeading_block del: beforeNextHeading.simps(2))
  next
    case (Cons it' its')
    with Cons.IH Cons.prems have "beforeNextHeading sev True (join [10] (map renderOne its) @ t)
           = join [10] (map renderOne its) @ beforeNextHeading sev True t" by simp
    with b Cons show ?thesis
      by (simp add: beforeNextHeading_block beforeNextHeading_newline del: beforeNextHeading.simps(2))
  qed
qed

lemma beforeNextHeading_section_other:
  assumes "list_all issueHeadingFree (bucketOf m sev')" "bucketOf m sev' \<noteq> []"
    and "sev \<in> set impactOrder" "sev' \<in> set impactOrder" "sev \<noteq> sev'"
  shows "beforeNextHeading sev True (renderSection m sev' @ t)
           = renderSection m sev' @ beforeNextHeading sev True t"
proof -
  let ?J = "join [10] (map renderOne (bucketOf m sev'))"
  obtain s where s: "headingText sev' = 35 # 32 # s" "quiet False s"
    using headingText_tail [OF assms(4)] by blast
  have "matchHeading sev (headingText sev' @ 10 # 10 # ?J @ t) = None"
    using assms(3-5) by (rule matchHeading_mismatch)
  then have "beforeNextHeading sev True (renderSection m sev' @ t)
          = 35 # beforeNextHeading sev False ((32 # s) @ 10 # 10 # ?J @ t)"
    by (simp add: renderSection_headingText s isLineTerminator_def)
  also have "beforeNextHeading sev False ((32 # s) @ 10 # 10 # ?J @ t)
          = (32 # s) @ 10 # beforeNextHeading sev True (10 # ?J @ t)"
    using s(2) by (intro beforeNextHeading_quiet) (simp add: isLineTerminator_def)
  also have "beforeNextHeading sev True (10 # ?J @ t) = 10 # ?J @ beforeNextHeading sev True t"
    by (simp only: beforeNextHeading_newline beforeNextHeading_blocks [OF assms(1,2)])
  finally show ?thesis
    by (simp add: renderSection_headingText s)
qed

lemma beforeNextHeading_doc:
  assumes "\<forall>s \<in> set secs. s \<in> set impactOrder \<and> s \<noteq> sev \<and> bucketOf m s \<noteq> []
             \<and> list_all issueHeadingFree (bucketOf m s)"
    and "sev \<in> set impactOrder"
  shows "beforeNextHeading sev True (join [10] (map (renderSection m) secs) @ t)
           = join [10] (map (renderSection m) secs) @ beforeNextHeading sev True t"
  using assms(1)
proof (induction secs)
  case Nil
  then show ?case by simp
next
  case (Cons s secs)
  then have s: "list_all issueHeadingFree (bucketOf m s)" "bucketOf m s \<noteq> []"
    "s \<in> set impactOrder" "sev \<noteq> s"
    by auto
  note other = beforeNextHeading_section_other [OF s(1,2) assms(2) s(3,4)]
  show ?case
  proof (cases secs)
    case Nil
    then show ?thesis using other [of t] by simp
  next
    case (Cons s' secs')
    have "beforeNextHeading sev True (join [10] (map (renderSection m) secs) @ t)
        = join [10] (map (renderSection m) secs) @ beforeNextHeading sev True t"
      using Cons.IH Cons.prems by simp
    then show ?thesis
      using Cons other [of "10 # join [10] (map (renderSection m) secs) @ t"]
      by (simp add: beforeNextHeading_newline del: beforeNextHeading.simps(2))
  qed
qed

lemma count2_section:
  assumes "list_all issueHeadingFree (bucketOf m sev)" "bucketOf m sev \<noteq> []"
    and "sev \<in> set impactOrder"
  shows "countHeadings (str ''## '') True (renderSection m sev @ t)
           = length (bucketOf m sev) + countHeadings (str ''## '') True t"
proof -
  let ?J = "join [10] (map renderOne (bucketOf m sev))"
  obtain s where s: "headingText sev = 35 # 32 # s" "quiet False s"
    using headingText_tail [OF assms(3)] by blast
  have "countHeadings (str ''## '') True (renderSection m sev @ t)
      = countHeadings [35, 35, 32] False ((32 # s) @ 10 # 10 # ?J @ t)"
    by (simp add: renderSection_headingText s str_def isLineTerminator_def)
  also have "\<dots> = countHeadings [35, 35, 32] True (10 # ?J @ t)"
    using s(2) by (intro countHeadings_quiet) (simp add: isLineTerminator_def)
  also have "\<dots> = countHeadings (str ''## '') True (10 # ?J @ t)"
    by (simp add: str_def)
  also have "\<dots> = length (bucketOf m sev) + countHeadings (str ''## '') True t"
    by (simp only: scan_newline blocks_scan(1) [OF assms(1,2)])
  finally show ?thesis .
qed

text \<open>
  So the validator rejects the report of the deterministic renderer itself, as a
  candidate for the finding set it was rendered from, whenever the findings have two
  different severities.
\<close>

lemma validator_rejects_rendered_report:
  assumes "list_all (\<lambda>it. impact it \<in> set impactOrder \<and> issueHeadingFree it) items"
    and "findingsOf s items \<noteq> 0" "findingsOf s' items \<noteq> 0" "s \<noteq> s'"
  shows "\<exists>md. renderMarkdownDeterministic address items = Inr md \<and> \<not> validateOrFallback md items"
proof -
  from assms(1) have "\<forall>it \<in> set items. impact it \<notin> set objectPrototypeKeys"
    by (auto simp add: list_all_iff dest: impactOrder_not_inherited)
  then obtain m where m: "byImpactLoop byImpactInit items = Inr m"
    using byImpactLoop_total by blast
  have bucket: "bucketOf m sev = filter (\<lambda>i. impact i = sev) items" for sev
    using byImpactLoop_buckets [OF m, of sev] by (simp add: byImpactInit_buckets)
  define secs where "secs = filter (\<lambda>sev. length (bucketOf m sev) \<noteq> 0) impactOrder"
  have good: "\<forall>s \<in> set secs. s \<in> set impactOrder \<and> bucketOf m s \<noteq> []
      \<and> list_all issueHeadingFree (bucketOf m s)"
    using assms(1) by (auto simp add: secs_def bucket list_all_iff)
  have dist: "distinct secs"
    by (simp add: secs_def distinct_impactOrder)
  have mem: "sev \<in> set secs" if "findingsOf sev items \<noteq> 0" for sev
  proof -
    from that obtain it where "it \<in> set items" "impact it = sev"
      by (auto simp add: findingsOf_def filter_empty_conv)
    with assms(1) have "sev \<in> set impactOrder" by (auto simp add: list_all_iff)
    with that show ?thesis by (simp add: secs_def findingsOf_def bucket)
  qed
  from mem [OF assms(2)] mem [OF assms(3)] assms(4) obtain s1 s2 rest where secs: "secs = s1 # s2 # rest"
    by (cases secs; cases "tl secs") auto
  let ?J = "join [10] (map renderOne (bucketOf m s1))"
  let ?t = "join [10] (map (renderSection m) (s2 # rest))"
  let ?doc = "renderSection m s1 @ 10 # ?t"
  have doc: "join [10] (map (renderSection m) secs) = ?doc"
    by (simp add: secs)
  have s1: "list_all issueHeadingFree (bucketOf m s1)" "bucketOf m s1 \<noteq> []" "s1 \<in> set impactOrder"
    and s2: "list_all issueHeadingFree (bucketOf m s2)" "bucketOf m s2 \<noteq> []" "s2 \<in> set impactOrder"
    using good by (simp_all add: secs)
  have others: "\<forall>s \<in> set (s2 # rest). s \<in> set impactOrder \<and> s \<noteq> s1 \<and> bucketOf m s \<noteq> []
      \<and> list_all issueHeadingFree (bucketOf m s)"
    using good dist by (auto simp add: secs)
  have after: "afterFirstHeading s1 True ?doc = Some (10 # ?J @ 10 # ?t, True)"
    using s1(1,2) by (rule after_section_same)
  have "beforeNextHeading s1 True (10 # ?J @ 10 # ?t @ []) = 10 # ?J @ 10 # ?t @ []"
    by (simp only: beforeNextHeading_newline beforeNextHeading_blocks [OF s1(1,2)]
        beforeNextHeading_doc [OF others s1(3)] beforeNextHeading.simps(1))
  with after have sect: "sectionOf s1 ?doc = 10 # ?J @ 10 # ?t"
    by (simp add: sectionOf_def del: beforeNextHeading.simps(2))
  obtain t' where t': "?t = renderSection m s2 @ t'"
    by (cases rest) simp_all
  have "countHeadings (str ''## '') True (10 # ?J @ 10 # ?t)
      = length (bucketOf m s1) + (length (bucketOf m s2) + countHeadings (str ''## '') True t')"
    unfolding t'
    by (simp only: scan_newline blocks_scan(1) [OF s1(1,2)] count2_section [OF s2])
  then have "countHeadings (str ''## '') True (sectionOf s1 ?doc)
      = length (bucketOf m s1) + (length (bucketOf m s2) + countHeadings (str ''## '') True t')"
    by (simp only: sect)
  moreover have "length (bucketOf m s2) > 0"
    using s2(2) by simp
  ultimately have "countHeadings (str ''## '') True (sectionOf s1 ?doc) > length (bucketOf m s1)"
    by linarith
  then have "parseCountsFromMarkdown ?doc s1 > findingsOf s1 items"
    by (simp add: parseCountsFromMarkdown_def Let_def findingsOf_def bucket less_max_iff_disj)
  then have "\<not> validateOrFallback ?doc items"
    using validateOrFallback_counts [of ?doc items s1] s1(3) by auto
  moreover have "renderMarkdownDeterministic address items
      = Inr (if join [10] (map (renderSection m) secs) = [] then noVulnerabilities address
             else join [10] (map (renderSection m) secs))"
    by (simp add: renderMarkdownDeterministic_def m secs_def)
  moreover have "?doc \<noteq> []"
    using renderSection_nonempty [of m s1] by simp
  ultimately show ?thesis
    unfolding doc by auto
qed

text \<open>
  Claim C1, at an input where it fails. The candidate has one sub-heading under
  \<^verbatim>\<open>High\<close> and one under \<^verbatim>\<open>Medium\<close>; the finding set has two findings of severity
  \<^verbatim>\<open>High\<close>. The validator accepts: its count for \<^verbatim>\<open>High\<close> runs past the next
  top-level heading and is two.
\<close>

theorem validator_counts_past_section:
  "validateOrFallback candidateTwoSections findingsTwoHighOneMedium \<and>
   specSubHeadingCount (str ''High'') candidateTwoSections = 1 \<and>
   findingsOf (str ''High'') findingsTwoHighOneMedium = 2 \<and>
   parseCountsFromMarkdown candidateTwoSections (str ''High'') = 2"
  by (simp add: candidateTwoSections_def findingsTwoHighOneMedium_def validate_eval
      example_eval impactOrder_def isLineTerminator_def isWhiteSpace_def)

subsection \<open>The orchestrator\<close>

lemma exampleDetector_issues:
  "groupByCheckAndElement (map (enrichIssue exampleRegistry) [exampleDetector])
     = [\<lparr>check = str ''low-level-calls'', title = str ''Low-level calls'',
         impact = str ''Informational'', confidence = str ''High'',
         description = str ''Low level call in V.f()'',
         locations = [\<lparr>filename = str ''src/V.sol'', line = Some 18, element = str ''f''\<rparr>],
         facts = \<lparr>writesAfterCall = False, mentionsDelegatecall = False,
                   mentionsLowLevelCall = False, exactStylePhrase = False,
                   mentionsZeroCheck = False\<rparr>,
         swc = None\<rparr>]"
  by (simp add: exampleDetector_def enrichIssue_def locationOfElement_def enrichWithSWC_def
      getSWCEntry_def exampleRegistry_def group_eval example_eval)

lemma exampleDetector_renders:
  "renderMarkdownDeterministic (str ''0xABC'')
     (groupByCheckAndElement (map (enrichIssue exampleRegistry) [exampleDetector])) =
   Inr (str ''# Informational Impact Findings'' @ [10, 10] @ str ''## Low-level calls'' @ [10]
        @ str ''- Contract: src/V.sol'' @ [10] @ str ''- Function: `f` (line 18)'' @ [10]
        @ str ''- Confidence: High'' @ [10]
        @ str ''- Issue: Uses low-level calls (`call`/`delegatecall`) that bypass type safety and can fail silently.'' @ [10]
        @ str ''- Recommendation: Prefer typed interface calls; if using low-level calls, check `success` and handle returned data.'' @ [10, 10])"
  unfolding exampleDetector_issues
  by (simp add: render_eval friendlyTitle_def primaryElement_def uniqueLocations_def locationKey_def
      showNumber_def digits.simps str_def)

lemma exampleDetector_empty_candidate:
  "\<not> validateOrFallback [] (groupByCheckAndElement (map (enrichIssue exampleRegistry) [exampleDetector]))"
  unfolding exampleDetector_issues
  by (simp add: validate_eval impactOrder_def str_def)

text \<open>
  Claim C2 as stated fails: when the call of the generator is rejected, the run ends
  with that exception and not with the rendered report.
\<close>

theorem runAudit_fetch_rejected:
  "runAudit exampleRegistry False FetchRejected (str ''0xABC'') [exampleDetector] = Inl FetchFailed \<and>
   runAudit exampleRegistry False FetchRejected (str ''0xABC'') [exampleDetector]
     \<noteq> renderMarkdownDeterministic (str ''0xABC'')
         (groupByCheckAndElement (map (enrichIssue exampleRegistry) [exampleDetector]))"
  unfolding exampleDetector_renders
  by (simp add: runAudit_def exampleDetector_def)

text \<open>
  Claim C2, amended. For every run in generator mode on a non-empty list of detector
  records: when the generator replies and its candidate text (the empty text when the
  reply has none) fails validation, the orchestrator returns what the deterministic
  renderer returns for the finding set; when the call is rejected, or the body of the
  reply is not JSON, the exception reaches the caller.
\<close>

theorem runAudit_generator_mode:
  assumes "detectors \<noteq> []"
  shows "runAudit swcData False FetchRejected address detectors = Inl FetchFailed \<and>
         runAudit swcData False JsonRejected address detectors = Inl BodyNotJson \<and>
         (\<not> validateOrFallback (case response reply of None \<Rightarrow> [] | Some t \<Rightarrow> t)
              (groupByCheckAndElement (map (enrichIssue swcData) detectors)) \<longrightarrow>
          runAudit swcData False (Replied reply) address detectors
            = renderMarkdownDeterministic address
                (groupByCheckAndElement (map (enrichIssue swcData) detectors)))"
  using assms by (simp add: runAudit_def Let_def)

text \<open>
  A reply without text for the example detector record: the candidate is rejected and
  the rendered report is returned.
\<close>

theorem runAudit_generator_mode_witness:
  "[exampleDetector] \<noteq> [] \<and>
   \<not> validateOrFallback (case response \<lparr>response = None, errorText = Some (str ''model not found'')\<rparr>
                            of None \<Rightarrow> [] | Some t \<Rightarrow> t)
       (groupByCheckAndElement (map (enrichIssue exampleRegistry) [exampleDetector])) \<and>
   runAudit exampleRegistry False
       (Replied \<lparr>response = None, errorText = Some (str ''model not found'')\<rparr>)
       (str ''0xABC'') [exampleDetector]
     = renderMarkdownDeterministic (str ''0xABC'')
         (groupByCheckAndElement (map (enrichIssue exampleRegistry) [exampleDetector])) \<and>
   runAudit exampleRegistry False FetchRejected (str ''0xABC'') [exampleDetector] = Inl FetchFailed"
  using runAudit_generator_mode [of "[exampleDetector]" exampleRegistry "str ''0xABC''"
      "\<lparr>response = None, errorText = Some (str ''model not found'')\<rparr>"]
    exampleDetector_empty_candidate
  by simp

end
